theory Spec2Isabelle
  imports Main
begin

section \<open>Python values and string formatting\<close>

text \<open>
  The firmware is MicroPython. Strings are modelled as \<open>string\<close> (every character the
  firmware puts on the display is ASCII), Python's unbounded integers as \<open>int\<close>, and the
  exceptions a list access or a modulo can raise as values of \<open>py_error\<close>.
\<close>

datatype py_error = IndexError | ZeroDivisionError

text \<open>The values \<open>display.write\<close> is handed: a string, an integer, a boolean or \<open>None\<close>.\<close>

datatype py_value = PStr string | PInt int | PBool bool | PNone

definition digit_char :: "nat \<Rightarrow> char" where
  "digit_char d = ''0123456789'' ! d"

text \<open>Decimal digits of a natural number, most significant first.\<close>

function nat_str :: "nat \<Rightarrow> string" where
  "nat_str n = (if n < 10 then [digit_char n] else nat_str (n div 10) @ [digit_char (n mod 10)])"
  by pat_completeness auto
termination
  by (relation "measure (\<lambda>n. n)") auto

declare nat_str.simps [simp del]

definition int_str :: "int \<Rightarrow> string" where
  "int_str i = (if i < 0 then CHR ''-'' # nat_str (nat (- i)) else nat_str (nat i))"

text \<open>Python's \<open>str(x)\<close> on the modelled values.\<close>

fun py_str :: "py_value \<Rightarrow> string" where
  "py_str (PStr s) = s"
| "py_str (PInt i) = int_str i"
| "py_str (PBool b) = (if b then ''True'' else ''False'')"
| "py_str PNone = ''None''"

text \<open>
  The format specification \<open>02\<close> of \<open>f"{m:02}"\<close>: minimum width 2, filled with zeros
  between the sign and the digits; a longer number is not shortened.
\<close>

definition zero_fill :: "nat \<Rightarrow> string \<Rightarrow> string" where
  "zero_fill w s = replicate (w - length s) CHR ''0'' @ s"

definition fmt02 :: "int \<Rightarrow> string" where
  "fmt02 i = (if i < 0 then CHR ''-'' # zero_fill 1 (nat_str (nat (- i)))
              else zero_fill 2 (nat_str (nat i)))"

text \<open>
  A Python list index against a list of \<open>len\<close> items: an index from \<open>-len\<close> to \<open>-1\<close>
  counts from the end, anything outside \<open>[-len, len)\<close> is an IndexError.
\<close>

definition norm_index :: "nat \<Rightarrow> int \<Rightarrow> nat option" where
  "norm_index len i =
     (if 0 \<le> i \<and> i < int len then Some (nat i)
      else if - int len \<le> i \<and> i < 0 then Some (nat (i + int len))
      else None)"

definition py_index :: "'a list \<Rightarrow> int \<Rightarrow> py_error + 'a" where
  "py_index xs i =
     (case norm_index (length xs) i of None \<Rightarrow> Inl IndexError | Some k \<Rightarrow> Inr (xs ! k))"

definition py_setitem :: "'a list \<Rightarrow> int \<Rightarrow> 'a \<Rightarrow> py_error + 'a list" where
  "py_setitem xs i v =
     (case norm_index (length xs) i of None \<Rightarrow> Inl IndexError | Some k \<Rightarrow> Inr (xs[k := v]))"

text \<open>Python's \<open>a % b\<close> on integers (floored; HOL's \<open>mod\<close> on \<open>int\<close> is floored too).\<close>

definition py_mod :: "int \<Rightarrow> int \<Rightarrow> py_error + int" where
  "py_mod a b = (if b = 0 then Inl ZeroDivisionError else Inr (a mod b))"

definition bind_err :: "(py_error + 'a) \<Rightarrow> ('a \<Rightarrow> py_error + 'b) \<Rightarrow> py_error + 'b" where
  "bind_err r f = (case r of Inl e \<Rightarrow> Inl e | Inr x \<Rightarrow> f x)"


section \<open>seven\_segment.py: SevenSegmentDisplay\<close>

definition SEGMENT_ON :: nat where "SEGMENT_ON = 1"
definition SEGMENT_OFF :: nat where "SEGMENT_OFF = 0"
definition DIGIT_ON :: nat where "DIGIT_ON = 0"
definition DIGIT_OFF :: nat where "DIGIT_OFF = 1"

text \<open>
  The object's fields. \<open>digits\<close>, \<open>segments\<close> and \<open>dp\<close> are output pins; the model keeps the
  level last written to each of them.
\<close>

record display =
  buffer :: "char list"
  dotmask :: "bool list"
  current_digit :: int
  digits :: "nat list"
  segments :: "nat list"
  dp :: nat

text \<open>The character table \<open>self.patterns\<close>, in the order a, b, c, d, e, f, g.\<close>

definition patterns :: "(char \<times> nat list) list" where
  "patterns =
    [(CHR ''0'', [1, 1, 1, 1, 1, 1, 0]), (CHR ''1'', [0, 1, 1, 0, 0, 0, 0]),
     (CHR ''2'', [1, 1, 0, 1, 1, 0, 1]), (CHR ''3'', [1, 1, 1, 1, 0, 0, 1]),
     (CHR ''4'', [0, 1, 1, 0, 0, 1, 1]), (CHR ''5'', [1, 0, 1, 1, 0, 1, 1]),
     (CHR ''6'', [1, 0, 1, 1, 1, 1, 1]), (CHR ''7'', [1, 1, 1, 0, 0, 0, 0]),
     (CHR ''8'', [1, 1, 1, 1, 1, 1, 1]), (CHR ''9'', [1, 1, 1, 1, 0, 1, 1]),
     (CHR ''-'', [0, 0, 0, 0, 0, 0, 1]), (CHR '' '', [0, 0, 0, 0, 0, 0, 0]),
     (CHR ''A'', [1, 1, 1, 0, 1, 1, 1]), (CHR ''B'', [0, 0, 1, 1, 1, 1, 1]),
     (CHR ''C'', [1, 0, 0, 1, 1, 1, 0]), (CHR ''D'', [0, 1, 1, 1, 1, 0, 1]),
     (CHR ''E'', [1, 0, 0, 1, 1, 1, 1]), (CHR ''F'', [1, 0, 0, 0, 1, 1, 1])]"

text \<open>\<open>self.patterns.get(ch, self.patterns[' '])\<close>.\<close>

definition patterns_get :: "char \<Rightarrow> nat list" where
  "patterns_get ch = (case map_of patterns ch of Some p \<Rightarrow> p | None \<Rightarrow> [0, 0, 0, 0, 0, 0, 0])"

text \<open>
  \<open>__init__\<close>: four digit pins, seven segment pins, a blank buffer, no dots, the cursor at
  digit 0, every digit line driven to \<open>DIGIT_OFF\<close>. The segment and decimal-point pins are
  not written before the first refresh; the model starts them at level 0.
\<close>

definition display_init :: display where
  "display_init =
     \<lparr> buffer = replicate 4 CHR '' '', dotmask = replicate 4 False, current_digit = 0,
       digits = replicate 4 DIGIT_OFF, segments = replicate 7 0, dp = 0 \<rparr>"

definition clear :: "display \<Rightarrow> display" where
  "clear d = d\<lparr> buffer := replicate (length (digits d)) CHR '' '',
               dotmask := replicate (length (digits d)) False \<rparr>"

definition write_buf :: "py_value \<Rightarrow> display \<Rightarrow> display" where
  "write_buf text d =
     (let text1 = py_str text;
          n = length (digits d);
          text2 = (if length text1 < n then text1 @ replicate (n - length text1) CHR '' ''
                   else if length text1 > n then take n text1
                   else text1)
      in d\<lparr> buffer := text2 \<rparr>)"

text \<open>
  \<open>write\<close> is called with whatever the caller passes. An argument that is not one of the
  values above is given by what \<open>str\<close> makes of it: the string \<open>str\<close> returns, or the
  exception it raises (\<open>str\<close> calls the \<open>__str__\<close> of the argument's class, which can do
  either).
\<close>

datatype py_arg = Builtin py_value | Object "py_error + string"

definition str_of :: "py_arg \<Rightarrow> py_error + string" where
  "str_of x = (case x of Builtin v \<Rightarrow> Inr (py_str v) | Object r \<Rightarrow> r)"

text \<open>
  \<open>write\<close> on any argument: the first statement \<open>text = str(text)\<close> either raises, and
  then the method is left with the object as it was, or yields a string, and the rest of
  the method is \<open>write_buf\<close> on that string.
\<close>

definition write_arg :: "py_arg \<Rightarrow> display \<Rightarrow> py_error + display" where
  "write_arg text d = bind_err (str_of text) (\<lambda>text1. Inr (write_buf (PStr text1) d))"

definition set_decimal_point :: "int \<Rightarrow> bool \<Rightarrow> display \<Rightarrow> display" where
  "set_decimal_point position state d =
     (if 0 \<le> position \<and> position < int (length (digits d))
      then d\<lparr> dotmask := (dotmask d)[nat position := state] \<rparr>
      else d)"

text \<open>
  The timer callback \<open>_refresh\<close>, in two stages so that the pin levels between them are a
  state of the model. \<open>deselect_prev\<close> is the first two statements (the previous digit's
  line goes to \<open>DIGIT_OFF\<close>); \<open>drive_and_select\<close> is the rest: read the cell, drive the
  seven segment pins and the decimal point, drive the current digit's line to \<open>DIGIT_ON\<close>,
  advance the cursor.
\<close>

definition deselect_prev :: "display \<Rightarrow> py_error + display" where
  "deselect_prev d =
     bind_err (py_mod (current_digit d - 1) (int (length (digits d)))) (\<lambda>prev_digit.
     bind_err (py_setitem (digits d) prev_digit DIGIT_OFF) (\<lambda>ds.
     Inr (d\<lparr> digits := ds \<rparr>)))"

definition drive_and_select :: "display \<Rightarrow> py_error + display" where
  "drive_and_select d =
     bind_err (py_index (buffer d) (current_digit d)) (\<lambda>ch.
     let pattern = patterns_get ch;
         segs = map (\<lambda>i. if pattern ! i \<noteq> 0 then SEGMENT_ON else SEGMENT_OFF)
                    [0 ..< length (segments d)]
     in
     bind_err (py_index (dotmask d) (current_digit d)) (\<lambda>dot.
     bind_err (py_setitem (digits d) (current_digit d) DIGIT_ON) (\<lambda>ds.
     bind_err (py_mod (current_digit d + 1) (int (length (digits d)))) (\<lambda>nxt.
     Inr (d\<lparr> segments := segs, dp := (if dot then SEGMENT_ON else SEGMENT_OFF),
              digits := ds, current_digit := nxt \<rparr>)))))"

definition refresh :: "display \<Rightarrow> py_error + display" where
  "refresh d = bind_err (deselect_prev d) drive_and_select"

text \<open>
  The states of a display object: what \<open>__init__\<close> builds, and what the three public
  methods and the timer callback make of a state.
\<close>

inductive reachable :: "display \<Rightarrow> bool" where
  r_init: "reachable display_init"
| r_clear: "reachable d \<Longrightarrow> reachable (clear d)"
| r_write: "reachable d \<Longrightarrow> reachable (write_buf text d)"
| r_dot: "reachable d \<Longrightarrow> reachable (set_decimal_point position state d)"
| r_refresh: "reachable d \<Longrightarrow> refresh d = Inr d' \<Longrightarrow> reachable d'"

text \<open>The digit lines that are at the ON level.\<close>

definition lines_on :: "display \<Rightarrow> nat list" where
  "lines_on d = filter (\<lambda>k. digits d ! k = DIGIT_ON) [0 ..< length (digits d)]"

text \<open>
  The pin states that \<open>k\<close> consecutive timer callbacks pass through: for each callback
  the state after its first stage and the state it leaves behind.
\<close>

fun refresh_trace :: "nat \<Rightarrow> display \<Rightarrow> py_error + display list" where
  "refresh_trace 0 d = Inr []"
| "refresh_trace (Suc k) d =
     bind_err (deselect_prev d) (\<lambda>e.
     bind_err (drive_and_select e) (\<lambda>d'.
     bind_err (refresh_trace k d') (\<lambda>rest. Inr (e # d' # rest))))"

text \<open>
  The invariant of the display object: four pins, four cells, four dot flags, the cursor
  in range, and no digit line at the ON level except the one before the cursor.
\<close>

definition disp_inv :: "display \<Rightarrow> bool" where
  "disp_inv d =
     (length (digits d) = 4 \<and> length (buffer d) = 4 \<and> length (dotmask d) = 4 \<and>
      0 \<le> current_digit d \<and> current_digit d < 4 \<and>
      (\<forall>k<4. digits d ! k = DIGIT_ON \<longrightarrow> int k = (current_digit d - 1) mod 4))"


section \<open>main.py: clock, buttons and effects\<close>

text \<open>
  MicroPython's millisecond clock wraps around: \<open>ticks_ms()\<close> lies in
  \<open>[0, TICKS_PERIOD)\<close>, \<open>ticks_add\<close> and \<open>ticks_diff\<close> are the library's modular sum and
  signed difference. \<open>TICKS_PERIOD\<close> is \<open>2 ^ 30\<close> on the RP2040 port.
\<close>

definition TICKS_PERIOD :: int where
  "TICKS_PERIOD = 2 ^ 30"

definition ticks_add :: "int \<Rightarrow> int \<Rightarrow> int" where
  "ticks_add t delta = (t + delta) mod TICKS_PERIOD"

definition ticks_diff :: "int \<Rightarrow> int \<Rightarrow> int" where
  "ticks_diff a b = (a - b + TICKS_PERIOD div 2) mod TICKS_PERIOD - TICKS_PERIOD div 2"

text \<open>
  What one pass through a loop body reads from the hardware: the value \<open>time.ticks_ms()\<close>
  returns and the level \<open>value()\<close> returns for each button. The buttons are wired with
  pull-ups, so a pressed button reads 0 and \<open>not btn.value()\<close> is true exactly then.
\<close>

record reading =
  now :: int
  up :: nat
  down :: nat
  confirm :: nat
  reset :: nat

definition py_not :: "nat \<Rightarrow> bool" where
  "py_not v = (v = 0)"

type_synonym color = "int \<times> int \<times> int"

datatype jingle = IntroJingle | WorkJingle | RestJingle

text \<open>
  The effects of the control loop, in the order they happen: a call of \<open>update_led\<close> with
  its argument, \<open>display.write\<close>, \<open>display.clear\<close>, a sleep in milliseconds, and the
  start of a jingle thread by \<open>play_jingle\<close>.
\<close>

datatype event = EvLed color | EvWrite string | EvClear | EvSleep nat | EvJingle jingle

text \<open>
  \<open>play_jingle(jingle)\<close> starts a thread that runs \<open>_play_jingle_thread(jingle)\<close>: a loop
  that calls \<open>jingle.tick()\<close> and sleeps 40 ms for as long as \<open>tick()\<close> returns true, and
  after it \<open>jingle.restart()\<close>. \<open>tick\<close> is the buzzer library's; what it returns in a pass
  of the loop is an input of that pass. A thread is at the head of its loop or has ended;
  the model counts its calls of \<open>tick\<close> and \<open>restart\<close>. The thread shares nothing with the
  control loop: the function reads no flag and no button.
\<close>

datatype thread_pc = InTickLoop | ThreadEnded

record jingle_thread =
  melody :: jingle
  th_pc :: thread_pc
  tick_calls :: nat
  restart_calls :: nat

definition thread_start :: "jingle \<Rightarrow> jingle_thread" where
  "thread_start j = \<lparr> melody = j, th_pc = InTickLoop, tick_calls = 0, restart_calls = 0 \<rparr>"

definition thread_step :: "bool \<Rightarrow> jingle_thread \<Rightarrow> jingle_thread" where
  "thread_step result th =
     (case th_pc th of
        InTickLoop \<Rightarrow>
          (let th1 = th\<lparr> tick_calls := tick_calls th + 1 \<rparr>
           in if result then th1
              else th1\<lparr> restart_calls := restart_calls th1 + 1, th_pc := ThreadEnded \<rparr>)
      | ThreadEnded \<Rightarrow> th)"

text \<open>
  The module-level display object, the effects so far, and the jingle threads started so
  far, in the order they were started.
\<close>

record world =
  disp :: display
  log :: "event list"
  threads :: "jingle_thread list"

definition emit :: "event \<Rightarrow> world \<Rightarrow> world" where
  "emit e w = w\<lparr> log := log w @ [e] \<rparr>"

definition update_led :: "color \<Rightarrow> world \<Rightarrow> world" where
  "update_led c w = emit (EvLed c) w"

definition display_write :: "string \<Rightarrow> world \<Rightarrow> world" where
  "display_write fr w = emit (EvWrite fr) (w\<lparr> disp := write_buf (PStr fr) (disp w) \<rparr>)"

definition display_clear :: "world \<Rightarrow> world" where
  "display_clear w = emit EvClear (w\<lparr> disp := clear (disp w) \<rparr>)"

definition sleep_ms :: "nat \<Rightarrow> world \<Rightarrow> world" where
  "sleep_ms n w = emit (EvSleep n) w"

text \<open>\<open>_thread.start_new_thread\<close> is taken to start the thread whenever it is called.\<close>

definition play_jingle :: "jingle \<Rightarrow> world \<Rightarrow> world" where
  "play_jingle j w = emit (EvJingle j) (w\<lparr> threads := threads w @ [thread_start j] \<rparr>)"

text \<open>One pass of the loop of thread number \<open>k\<close>, in which \<open>tick()\<close> returns \<open>result\<close>.\<close>

definition thread_pass :: "nat \<Rightarrow> bool \<Rightarrow> world \<Rightarrow> world" where
  "thread_pass k result w =
     (if k < length (threads w)
      then w\<lparr> threads := (threads w)[k := thread_step result (threads w ! k)] \<rparr>
      else w)"


section \<open>main.py: countdown\<close>

text \<open>
  \<open>countdown\<close> as a machine. The control points are the three loop heads and the two ways
  out: \<open>AtTick\<close> is the head of \<open>while seconds >= 0\<close>, \<open>Polling\<close> the head of the inner
  \<open>while time.ticks_diff(end_time, time.ticks_ms()) > 0\<close>, \<open>PausedLoop\<close> the head of
  \<open>while paused_flag[0]\<close>; \<open>Returned\<close> is the function having returned to its caller and
  \<open>CalledMain\<close> the call \<open>main()\<close> of the reset branch, which does not return
  (\<open>main\<close> ends in \<open>while True\<close>).
\<close>

datatype cd_pc = AtTick | Polling | PausedLoop | Returned | CalledMain

record countdown_state =
  pc :: cd_pc
  seconds :: int
  paused_flag :: bool
  color_changed :: bool
  frame :: string
  end_time :: int
  cd_world :: world

text \<open>\<open>frame = f"{m:02}{s:02}"\<close> with \<open>m = seconds // 60\<close> and \<open>s = seconds % 60\<close>.\<close>

definition countdown_frame :: "int \<Rightarrow> string" where
  "countdown_frame secs = fmt02 (secs div 60) @ fmt02 (secs mod 60)"

text \<open>
  Entry into \<open>countdown(seconds, paused_flag, led_color_full, led_color_last_min)\<close>.
  \<open>frame\<close> and \<open>end_time\<close> are not bound yet; \<open>led_color_full\<close> is never used by the body.
\<close>

definition countdown_init :: "int \<Rightarrow> bool \<Rightarrow> world \<Rightarrow> countdown_state" where
  "countdown_init secs paused w =
     \<lparr> pc = AtTick, seconds = secs, paused_flag = paused, color_changed = False,
       frame = [], end_time = 0, cd_world = w \<rparr>"

text \<open>The body of the outer loop up to the inner loop: LED change, frame, deadline.\<close>

definition tick_body :: "color option \<Rightarrow> reading \<Rightarrow> countdown_state \<Rightarrow> countdown_state" where
  "tick_body led_color_last_min inp s =
     (let s1 = (case led_color_last_min of
                  Some c \<Rightarrow>
                    if seconds s = 60 \<and> \<not> color_changed s
                    then s\<lparr> cd_world := update_led c (cd_world s), color_changed := True \<rparr>
                    else s
                | None \<Rightarrow> s);
          fr = countdown_frame (seconds s1)
      in s1\<lparr> frame := fr, cd_world := display_write fr (cd_world s1),
              end_time := ticks_add (now inp) 1000, pc := Polling \<rparr>)"

text \<open>
  One pass of the inner loop, from its condition to the head of the pause loop: the pause
  toggle, then the reset branch, then the test of \<open>while paused_flag[0]\<close>. When the
  deadline has passed the inner loop is left and \<open>seconds -= 1\<close> runs.
\<close>

definition poll_body :: "reading \<Rightarrow> countdown_state \<Rightarrow> countdown_state" where
  "poll_body inp s =
     (if ticks_diff (end_time s) (now inp) > 0
      then
        (let s1 = (if py_not (confirm inp)
                   then s\<lparr> cd_world := sleep_ms 300 (cd_world s),
                           paused_flag := \<not> paused_flag s \<rparr>
                   else s)
         in if py_not (reset inp) then s1\<lparr> pc := CalledMain \<rparr>
            else if paused_flag s1 then s1\<lparr> pc := PausedLoop \<rparr>
            else s1\<lparr> pc := Polling \<rparr>)
      else s\<lparr> seconds := seconds s - 1, pc := AtTick \<rparr>)"

text \<open>One pass of the pause loop: blink phase, resume button, frame or blank, sleep.\<close>

definition paused_body :: "reading \<Rightarrow> countdown_state \<Rightarrow> countdown_state" where
  "paused_body inp s =
     (if paused_flag s
      then
        (let blink_on = ((now inp div 500) mod 2 = 0)
         in if py_not (confirm inp)
            then s\<lparr> cd_world := sleep_ms 300 (cd_world s), paused_flag := False,
                    pc := Polling \<rparr>
            else
              (let w1 = (if blink_on then display_write (frame s) (cd_world s)
                         else display_clear (cd_world s))
               in s\<lparr> cd_world := sleep_ms 50 w1, pc := PausedLoop \<rparr>))
      else s\<lparr> pc := Polling \<rparr>)"

definition countdown_step :: "color option \<Rightarrow> reading \<Rightarrow> countdown_state \<Rightarrow> countdown_state" where
  "countdown_step led_color_last_min inp s =
     (case pc s of
        AtTick \<Rightarrow> if seconds s \<ge> 0 then tick_body led_color_last_min inp s
                  else s\<lparr> pc := Returned \<rparr>
      | Polling \<Rightarrow> poll_body inp s
      | PausedLoop \<Rightarrow> paused_body inp s
      | Returned \<Rightarrow> s
      | CalledMain \<Rightarrow> s)"

text \<open>The machine run over the readings of successive passes.\<close>

fun countdown_run :: "color option \<Rightarrow> reading list \<Rightarrow> countdown_state \<Rightarrow> countdown_state" where
  "countdown_run c [] s = s"
| "countdown_run c (inp # inps) s = countdown_run c inps (countdown_step c inp s)"

text \<open>A reading at clock value \<open>t\<close> with no button pressed.\<close>

definition idle :: "int \<Rightarrow> reading" where
  "idle t = \<lparr> now = t, up = 1, down = 1, confirm = 1, reset = 1 \<rparr>"

text \<open>
  The readings of \<open>k\<close> undisturbed seconds starting at clock value \<open>t\<close>: each second is one
  pass at the head of the outer loop, which sets the deadline, and one pass of the inner
  loop that finds the deadline reached.
\<close>

fun second_readings :: "int \<Rightarrow> nat \<Rightarrow> reading list" where
  "second_readings t 0 = []"
| "second_readings t (Suc k) =
     idle t # idle (ticks_add t 1000) # second_readings (ticks_add t 1000) k"

definition is_led :: "event \<Rightarrow> bool" where
  "is_led e = (case e of EvLed c \<Rightarrow> True | _ \<Rightarrow> False)"

text \<open>The calls of \<open>update_led\<close> among the effects so far.\<close>

definition led_events :: "world \<Rightarrow> event list" where
  "led_events w = filter is_led (log w)"

text \<open>Readings with one button held down.\<close>

definition press_confirm :: "int \<Rightarrow> reading" where
  "press_confirm t = (idle t)\<lparr> confirm := 0 \<rparr>"

definition press_reset :: "int \<Rightarrow> reading" where
  "press_reset t = (idle t)\<lparr> reset := 0 \<rparr>"

definition press_up :: "int \<Rightarrow> reading" where
  "press_up t = (idle t)\<lparr> up := 0 \<rparr>"

definition press_down :: "int \<Rightarrow> reading" where
  "press_down t = (idle t)\<lparr> down := 0 \<rparr>"

text \<open>The world at power-up: a fresh display object and no effects yet.\<close>

definition boot_world :: world where
  "boot_world = \<lparr> disp = display_init, log = [], threads = [] \<rparr>"

text \<open>
  The loop head of second 60 has been passed: \<open>seconds\<close> is below 60, or it is 60 and
  control is beyond the head of the outer loop.
\<close>

definition past_minute_mark :: "countdown_state \<Rightarrow> bool" where
  "past_minute_mark s = (seconds s < 60 \<or> (seconds s = 60 \<and> pc s \<noteq> AtTick))"

text \<open>
  What holds of every state of \<open>countdown(n, ...)\<close> with \<open>n \<ge> 0\<close>: \<open>seconds\<close> stays in
  \<open>[-1, n]\<close> and is \<open>-1\<close> only at the last test of the outer loop and after the return,
  the pause loop runs only with the flag set, and inside the outer loop's body \<open>frame\<close>
  is the frame of \<open>seconds\<close>.
\<close>

definition cd_inv :: "int \<Rightarrow> countdown_state \<Rightarrow> bool" where
  "cd_inv n s =
     (- 1 \<le> seconds s \<and> seconds s \<le> n \<and>
      (seconds s = - 1 \<longrightarrow> pc s = AtTick \<or> pc s = Returned) \<and>
      (pc s = Returned \<longrightarrow> seconds s = - 1) \<and>
      (pc s = PausedLoop \<longrightarrow> paused_flag s) \<and>
      (pc s = Polling \<or> pc s = PausedLoop \<or> pc s = CalledMain \<longrightarrow>
         frame s = countdown_frame (seconds s)) \<and>
      reachable (disp (cd_world s)))"


section \<open>main.py: set\_times\<close>

record set_times_state =
  study :: int
  rest :: int
  idx :: int
  last :: int
  st_world :: world

definition debounce :: int where
  "debounce = 500"

text \<open>Entry into \<open>set_times()\<close>; \<open>t0\<close> is what \<open>last = time.ticks_ms()\<close> reads.\<close>

definition set_times_init :: "int \<Rightarrow> world \<Rightarrow> set_times_state" where
  "set_times_init t0 w = \<lparr> study = 25, rest = 5, idx = 0, last = t0, st_world = w \<rparr>"

definition up_pressed :: "reading \<Rightarrow> set_times_state \<Rightarrow> set_times_state" where
  "up_pressed inp s =
     (if py_not (up inp) \<and> ticks_diff (now inp) (last s) > debounce
      then (if idx s = 0 then s\<lparr> study := min (study s + 5) 95 \<rparr>
            else s\<lparr> rest := min (rest s + 5) 95 \<rparr>)\<lparr> last := now inp \<rparr>
      else s)"

definition down_pressed :: "reading \<Rightarrow> set_times_state \<Rightarrow> set_times_state" where
  "down_pressed inp s =
     (if py_not (down inp) \<and> ticks_diff (now inp) (last s) > debounce
      then (if idx s = 0 then s\<lparr> study := max (study s - 5) 0 \<rparr>
            else s\<lparr> rest := max (rest s - 5) 0 \<rparr>)\<lparr> last := now inp \<rparr>
      else s)"

definition confirm_pressed :: "reading \<Rightarrow> set_times_state \<Rightarrow> set_times_state" where
  "confirm_pressed inp s =
     (if py_not (confirm inp) \<and> ticks_diff (now inp) (last s) > debounce
      then s\<lparr> idx := idx s + 1, last := now inp \<rparr>
      else s)"

text \<open>The frame of one pass, with the edited field hidden in the dark half of the blink.\<close>

definition set_times_frame :: "reading \<Rightarrow> set_times_state \<Rightarrow> string" where
  "set_times_frame inp s =
     (let fr = fmt02 (study s) @ fmt02 (rest s);
          blink_on = ((now inp div 500) mod 2 = 0)
      in if idx s = 0 \<and> \<not> blink_on then ''  '' @ drop 2 fr
         else if idx s = 1 \<and> \<not> blink_on then take 2 fr @ ''  ''
         else fr)"

text \<open>One pass of \<open>while idx < 2\<close>; the three button tests run in the source's order.\<close>

definition set_times_step :: "reading \<Rightarrow> set_times_state \<Rightarrow> set_times_state" where
  "set_times_step inp s =
     (if idx s < 2
      then
        (let s1 = s\<lparr> st_world := display_write (set_times_frame inp s) (st_world s) \<rparr>;
             s2 = up_pressed inp s1;
             s3 = down_pressed inp s2;
             s4 = confirm_pressed inp s3
         in s4\<lparr> st_world := sleep_ms 40 (st_world s4) \<rparr>)
      else s)"

fun set_times_run :: "reading list \<Rightarrow> set_times_state \<Rightarrow> set_times_state" where
  "set_times_run [] s = s"
| "set_times_run (inp # inps) s = set_times_run inps (set_times_step inp s)"

text \<open>\<open>return study * 60, rest * 60\<close>, once the loop has been left.\<close>

definition set_times_result :: "set_times_state \<Rightarrow> (int \<times> int) option" where
  "set_times_result s = (if idx s < 2 then None else Some (study s * 60, rest s * 60))"

text \<open>
  The debouncer as the specification words it, for comparison with \<open>set_times_step\<close>:
  one \<open>last_edge_time\<close> per button; a pressed button is accepted when
  \<open>now - last_edge_time > debounce_window\<close> for its own time stamp, and accepting it
  updates that time stamp only. The actions of the buttons are those of \<open>set_times\<close>.
\<close>

record per_button_state =
  pb_study :: int
  pb_rest :: int
  pb_idx :: int
  last_up :: int
  last_down :: int
  last_confirm :: int

definition per_button_init :: "int \<Rightarrow> per_button_state" where
  "per_button_init t0 =
     \<lparr> pb_study = 25, pb_rest = 5, pb_idx = 0, last_up = t0, last_down = t0, last_confirm = t0 \<rparr>"

definition per_button_step :: "reading \<Rightarrow> per_button_state \<Rightarrow> per_button_state" where
  "per_button_step inp s =
     (if pb_idx s < 2
      then
        (let s2 = (if py_not (up inp) \<and> ticks_diff (now inp) (last_up s) > debounce
                   then (if pb_idx s = 0 then s\<lparr> pb_study := min (pb_study s + 5) 95 \<rparr>
                         else s\<lparr> pb_rest := min (pb_rest s + 5) 95 \<rparr>)\<lparr> last_up := now inp \<rparr>
                   else s);
             s3 = (if py_not (down inp) \<and> ticks_diff (now inp) (last_down s2) > debounce
                   then (if pb_idx s2 = 0 then s2\<lparr> pb_study := max (pb_study s2 - 5) 0 \<rparr>
                         else s2\<lparr> pb_rest := max (pb_rest s2 - 5) 0 \<rparr>)\<lparr> last_down := now inp \<rparr>
                   else s2)
         in if py_not (confirm inp) \<and> ticks_diff (now inp) (last_confirm s3) > debounce
            then s3\<lparr> pb_idx := pb_idx s3 + 1, last_confirm := now inp \<rparr>
            else s3)
      else s)"

fun per_button_run :: "reading list \<Rightarrow> per_button_state \<Rightarrow> per_button_state" where
  "per_button_run [] s = s"
| "per_button_run (inp # inps) s = per_button_run inps (per_button_step inp s)"


section \<open>main.py: main\<close>

text \<open>
  \<open>main\<close> as a machine over the same readings. \<open>Entering\<close> is a call of \<open>main()\<close> about to
  run; \<open>InSetTimes\<close>, \<open>InWork\<close> and \<open>InRest\<close> are \<open>main\<close> inside \<open>set_times()\<close> and inside
  the first and the second \<open>countdown(...)\<close> of its \<open>while True\<close>. The number is how many
  calls of \<open>main()\<close> lie below this one on the stack: the reset branch of \<open>countdown\<close>
  calls \<open>main()\<close> again and that call never returns. \<open>jingle_selection\<close> only chooses
  which melody strings the three jingles hold; the model records which jingle is started.
\<close>

datatype main_state =
    Entering nat world
  | InSetTimes nat set_times_state
  | InWork nat int int countdown_state
  | InRest nat int int countdown_state

definition main_start :: main_state where
  "main_start = Entering 0 \<lparr> disp = display_init, log = [], threads = [] \<rparr>"

text \<open>\<open>main()\<close> from its first statement to the head of the loop of \<open>set_times\<close>.\<close>

definition main_enter :: "nat \<Rightarrow> reading \<Rightarrow> world \<Rightarrow> main_state" where
  "main_enter depth inp w =
     InSetTimes depth
       (set_times_init (now inp) (play_jingle IntroJingle (update_led (35, 91, 121) w)))"

text \<open>From the return of \<open>set_times\<close> to the head of the first countdown.\<close>

definition start_work :: "nat \<Rightarrow> int \<Rightarrow> int \<Rightarrow> bool \<Rightarrow> world \<Rightarrow> main_state" where
  "start_work depth study_secs rest_secs paused w =
     InWork depth study_secs rest_secs
       (countdown_init study_secs paused
          (sleep_ms 300 (play_jingle WorkJingle (update_led (0, 255, 0) w))))"

definition start_rest :: "nat \<Rightarrow> int \<Rightarrow> int \<Rightarrow> bool \<Rightarrow> world \<Rightarrow> main_state" where
  "start_rest depth study_secs rest_secs paused w =
     InRest depth study_secs rest_secs
       (countdown_init rest_secs paused
          (play_jingle RestJingle (update_led (255, 0, 0) w)))"

definition main_step :: "reading \<Rightarrow> main_state \<Rightarrow> main_state" where
  "main_step inp m =
     (case m of
        Entering depth w \<Rightarrow> main_enter depth inp w
      | InSetTimes depth st \<Rightarrow>
          (let st1 = set_times_step inp st
           in case set_times_result st1 of
                None \<Rightarrow> InSetTimes depth st1
              | Some (study_secs, rest_secs) \<Rightarrow>
                  start_work depth study_secs rest_secs False (st_world st1))
      | InWork depth study_secs rest_secs cd \<Rightarrow>
          (let cd1 = countdown_step (Some (255, 255, 0)) inp cd
           in case pc cd1 of
                Returned \<Rightarrow>
                  start_rest depth study_secs rest_secs (paused_flag cd1) (cd_world cd1)
              | CalledMain \<Rightarrow> Entering (Suc depth) (cd_world cd1)
              | _ \<Rightarrow> InWork depth study_secs rest_secs cd1)
      | InRest depth study_secs rest_secs cd \<Rightarrow>
          (let cd1 = countdown_step (Some (255, 255, 0)) inp cd
           in case pc cd1 of
                Returned \<Rightarrow>
                  start_work depth study_secs rest_secs (paused_flag cd1) (cd_world cd1)
              | CalledMain \<Rightarrow> Entering (Suc depth) (cd_world cd1)
              | _ \<Rightarrow> InRest depth study_secs rest_secs cd1))"

fun main_run :: "reading list \<Rightarrow> main_state \<Rightarrow> main_state" where
  "main_run [] m = m"
| "main_run (inp # inps) m = main_run inps (main_step inp m)"

text \<open>
  The control loop and the jingle threads together. The world of the control loop is the
  one held by whatever \<open>main\<close> is inside; a step of the whole is a pass of the control
  loop or a pass of the loop of one jingle thread, in any order.
\<close>

fun main_world :: "main_state \<Rightarrow> world" where
  "main_world (Entering depth w) = w"
| "main_world (InSetTimes depth st) = st_world st"
| "main_world (InWork depth study_secs rest_secs cd) = cd_world cd"
| "main_world (InRest depth study_secs rest_secs cd) = cd_world cd"

fun main_map_world :: "(world \<Rightarrow> world) \<Rightarrow> main_state \<Rightarrow> main_state" where
  "main_map_world f (Entering depth w) = Entering depth (f w)"
| "main_map_world f (InSetTimes depth st) = InSetTimes depth (st\<lparr> st_world := f (st_world st) \<rparr>)"
| "main_map_world f (InWork depth study_secs rest_secs cd) =
     InWork depth study_secs rest_secs (cd\<lparr> cd_world := f (cd_world cd) \<rparr>)"
| "main_map_world f (InRest depth study_secs rest_secs cd) =
     InRest depth study_secs rest_secs (cd\<lparr> cd_world := f (cd_world cd) \<rparr>)"

text \<open>How many calls of \<open>main()\<close> lie below the running one, and whether it is in \<open>set_times\<close>.\<close>

fun main_depth :: "main_state \<Rightarrow> nat" where
  "main_depth (Entering depth w) = depth"
| "main_depth (InSetTimes depth st) = depth"
| "main_depth (InWork depth study_secs rest_secs cd) = depth"
| "main_depth (InRest depth study_secs rest_secs cd) = depth"

fun in_set_times :: "main_state \<Rightarrow> bool" where
  "in_set_times (InSetTimes depth st) = True"
| "in_set_times m = False"

datatype pass = MainPass reading | ThreadPass nat bool

definition system_step :: "pass \<Rightarrow> main_state \<Rightarrow> main_state" where
  "system_step p m =
     (case p of
        MainPass inp \<Rightarrow> main_step inp m
      | ThreadPass k result \<Rightarrow> main_map_world (thread_pass k result) m)"

fun system_run :: "pass list \<Rightarrow> main_state \<Rightarrow> main_state" where
  "system_run [] m = m"
| "system_run (p # ps) m = system_run ps (system_step p m)"


section \<open>The display object keeps its shape\<close>

lemma upt4: "[0..<4] = [0, 1, 2, 3::nat]"
  by (simp add: upt_rec)

lemma deselect_prev_ok:
  assumes "disp_inv d"
  shows "\<exists>e. deselect_prev d = Inr e \<and> lines_on e = [] \<and> buffer e = buffer d \<and>
           dotmask e = dotmask d \<and> current_digit e = current_digit d \<and> length (digits e) = 4"
proof -
  let ?p = "(current_digit d - 1) mod 4"
  have p: "0 \<le> ?p" "?p < 4" by auto
  let ?e = "d\<lparr> digits := (digits d)[nat ?p := DIGIT_OFF] \<rparr>"
  have len: "length (digits d) = 4" using assms by (simp add: disp_inv_def)
  have 1: "deselect_prev d = Inr ?e"
    using len p by (simp add: deselect_prev_def py_mod_def py_setitem_def norm_index_def bind_err_def Let_def)
  have off: "\<And>k. k < 4 \<Longrightarrow> digits ?e ! k \<noteq> DIGIT_ON"
  proof -
    fix k :: nat assume k: "k < 4"
    show "digits ?e ! k \<noteq> DIGIT_ON"
    proof (cases "int k = ?p")
      case True
      then have "nat ?p = k" by linarith
      then show ?thesis using len k by (simp add: DIGIT_ON_def DIGIT_OFF_def)
    next
      case False
      then have "digits d ! k \<noteq> DIGIT_ON" using assms k by (auto simp: disp_inv_def)
      moreover have "nat ?p \<noteq> k" using False p by linarith
      ultimately show ?thesis by simp
    qed
  qed
  have "lines_on ?e = []"
    using off len by (simp add: lines_on_def upt4)
  then show ?thesis using 1 len by auto
qed

lemma drive_and_select_ok:
  assumes "length (digits e) = 4" "length (buffer e) = 4" "length (dotmask e) = 4"
    "0 \<le> current_digit e" "current_digit e < 4" "lines_on e = []"
  shows "\<exists>d'. drive_and_select e = Inr d' \<and> lines_on d' = [nat (current_digit e)] \<and>
           current_digit d' = (current_digit e + 1) mod 4 \<and> buffer d' = buffer e \<and> dotmask d' = dotmask e \<and> disp_inv d'"
proof -
  let ?c = "current_digit e"
  obtain d' where d': "drive_and_select e = Inr d'"
     "digits d' = (digits e)[nat ?c := DIGIT_ON]" "current_digit d' = (?c + 1) mod 4"
     "buffer d' = buffer e" "dotmask d' = dotmask e"
    using assms(1-5)
    by (simp add: drive_and_select_def py_index_def py_setitem_def norm_index_def py_mod_def bind_err_def Let_def)
  have off: "\<And>k. k < 4 \<Longrightarrow> digits e ! k \<noteq> DIGIT_ON"
    using assms(1,6) by (auto simp: lines_on_def filter_empty_conv)
  have on: "\<And>k. k < 4 \<Longrightarrow> (digits d' ! k = DIGIT_ON) = (k = nat ?c)"
    using off assms(1,4,5) d'(2) by (auto simp: nth_list_update)
  have c: "nat ?c < 4" using assms(4,5) by linarith
  have len': "length (digits d') = 4" using d'(2) assms(1) by simp
  have on4: "(digits d' ! 0 = DIGIT_ON) = (0 = nat ?c)" "(digits d' ! 1 = DIGIT_ON) = (1 = nat ?c)"
    "(digits d' ! 2 = DIGIT_ON) = (2 = nat ?c)" "(digits d' ! 3 = DIGIT_ON) = (3 = nat ?c)"
    using on[of 0] on[of 1] on[of 2] on[of 3] by simp_all
  have cc: "nat ?c = 0 \<or> nat ?c = 1 \<or> nat ?c = 2 \<or> nat ?c = 3" using c by linarith
  have "lines_on d' = [nat ?c]"
    unfolding lines_on_def len' upt4 using cc on4 by (elim disjE) simp_all
  moreover have "disp_inv d'"
    unfolding disp_inv_def using on d' assms(1-5) c
    by (auto simp: mod_diff_left_eq zmod_trivial_iff)
  ultimately show ?thesis using d' by auto
qed

lemma refresh_ok:
  assumes "disp_inv d"
  shows "\<exists>e d'. deselect_prev d = Inr e \<and> drive_and_select e = Inr d' \<and> refresh d = Inr d' \<and>
           lines_on e = [] \<and> lines_on d' = [nat (current_digit d)] \<and>
           current_digit d' = (current_digit d + 1) mod 4 \<and>
           buffer d' = buffer d \<and> dotmask d' = dotmask d \<and> disp_inv d'"
proof -
  obtain e where e: "deselect_prev d = Inr e" "lines_on e = []" "buffer e = buffer d"
      "dotmask e = dotmask d" "current_digit e = current_digit d" "length (digits e) = 4"
    using deselect_prev_ok[OF assms] by blast
  have "length (buffer e) = 4" "length (dotmask e) = 4" "0 \<le> current_digit e" "current_digit e < 4"
    using assms e by (simp_all add: disp_inv_def)
  from drive_and_select_ok[OF e(6) this e(2)]
  obtain d' where d': "drive_and_select e = Inr d'" "lines_on d' = [nat (current_digit e)]"
      "current_digit d' = (current_digit e + 1) mod 4" "buffer d' = buffer e"
      "dotmask d' = dotmask e" "disp_inv d'"
    by blast
  have "refresh d = Inr d'" using e(1) d'(1) by (simp add: refresh_def bind_err_def)
  then show ?thesis using e d' by auto
qed

lemma write_buf_length: "length (buffer (write_buf v d)) = length (digits d)"
  by (simp add: write_buf_def Let_def)

lemma disp_inv_init: "disp_inv display_init"
  by (simp add: disp_inv_def display_init_def DIGIT_ON_def DIGIT_OFF_def)

lemma disp_inv_clear: "disp_inv d \<Longrightarrow> disp_inv (clear d)"
  by (simp add: disp_inv_def clear_def)

lemma disp_inv_write: "disp_inv d \<Longrightarrow> disp_inv (write_buf v d)"
  using write_buf_length[of v d] by (simp add: disp_inv_def write_buf_def Let_def)

lemma disp_inv_dot: "disp_inv d \<Longrightarrow> disp_inv (set_decimal_point p b d)"
  by (simp add: disp_inv_def set_decimal_point_def)

lemma reachable_inv: "reachable d \<Longrightarrow> disp_inv d"
proof (induction rule: reachable.induct)
  case r_init
  show ?case by (rule disp_inv_init)
next
  case (r_clear d)
  then show ?case by (simp add: disp_inv_clear)
next
  case (r_write d v)
  then show ?case by (simp add: disp_inv_write)
next
  case (r_dot d position state)
  then show ?case by (simp add: disp_inv_dot)
next
  case (r_refresh d d')
  then show ?case using refresh_ok[of d] by auto
qed

lemma lines_on_at_most_one:
  assumes "disp_inv d"
  shows "length (lines_on d) \<le> 1"
proof -
  let ?p = "(current_digit d - 1) mod 4"
  have len: "length (digits d) = 4" using assms by (simp add: disp_inv_def)
  have imp: "\<And>k. k < 4 \<Longrightarrow> digits d ! k = DIGIT_ON \<Longrightarrow> int k = ?p"
    using assms by (simp add: disp_inv_def)
  have i4: "digits d ! 0 = DIGIT_ON \<Longrightarrow> ?p = 0" "digits d ! 1 = DIGIT_ON \<Longrightarrow> ?p = 1"
      "digits d ! 2 = DIGIT_ON \<Longrightarrow> ?p = 2" "digits d ! 3 = DIGIT_ON \<Longrightarrow> ?p = 3"
    using imp[of 0] imp[of 1] imp[of 2] imp[of 3] by simp_all
  have "0 \<le> ?p" "?p < 4" by auto
  then have "?p = 0 \<or> ?p = 1 \<or> ?p = 2 \<or> ?p = 3" by linarith
  then show ?thesis
    unfolding lines_on_def len upt4 using i4 by (elim disjE) auto
qed

lemma refresh_trace_Suc:
  assumes "deselect_prev d = Inr e" "drive_and_select e = Inr d'" "refresh_trace k d' = Inr r"
  shows "refresh_trace (Suc k) d = Inr (e # d' # r)"
  using assms by (simp add: bind_err_def)

lemma sel_perm:
  assumes "0 \<le> c" "c < (4::int)"
  shows "set [nat c, nat ((c + 1) mod 4), nat ((c + 2) mod 4), nat ((c + 3) mod 4)] = {0, 1, 2, 3}
         \<and> distinct [nat c, nat ((c + 1) mod 4), nat ((c + 2) mod 4), nat ((c + 3) mod 4)]"
proof -
  have "c = 0 \<or> c = 1 \<or> c = 2 \<or> c = 3" using assms by linarith
  then show ?thesis by (elim disjE) auto
qed


section \<open>The refresh cycle\<close>

text \<open>
  C5. From every state the display object can reach, four consecutive timer callbacks
  succeed; after the first stage of each no digit line is at the ON level, after each
  callback exactly the line of the digit the cursor pointed at is ON, the cursor moves on
  by one modulo 4 and stays in \<open>[0, 4)\<close>, and the four digits driven ON in the cycle are
  the four digits of the display, each once.
\<close>

theorem refresh_cycle:
  assumes "reachable d"
  shows "0 \<le> current_digit d \<and> current_digit d < 4 \<and> length (lines_on d) \<le> 1 \<and>
    (\<exists>e1 d1 e2 d2 e3 d3 e4 d4.
       refresh_trace 4 d = Inr [e1, d1, e2, d2, e3, d3, e4, d4] \<and>
       refresh d = Inr d1 \<and> refresh d1 = Inr d2 \<and> refresh d2 = Inr d3 \<and> refresh d3 = Inr d4 \<and>
       map lines_on [e1, d1, e2, d2, e3, d3, e4, d4] =
         [[], [nat (current_digit d)], [], [nat ((current_digit d + 1) mod 4)],
          [], [nat ((current_digit d + 2) mod 4)], [], [nat ((current_digit d + 3) mod 4)]] \<and>
       map current_digit [d1, d2, d3, d4] =
         [(current_digit d + 1) mod 4, (current_digit d + 2) mod 4,
          (current_digit d + 3) mod 4, current_digit d]) \<and>
    set [nat (current_digit d), nat ((current_digit d + 1) mod 4),
         nat ((current_digit d + 2) mod 4), nat ((current_digit d + 3) mod 4)] = {0, 1, 2, 3} \<and>
    distinct [nat (current_digit d), nat ((current_digit d + 1) mod 4),
         nat ((current_digit d + 2) mod 4), nat ((current_digit d + 3) mod 4)]"
proof -
  let ?c = "current_digit d"
  have inv: "disp_inv d" using assms by (rule reachable_inv)
  then have c: "0 \<le> ?c" "?c < 4" by (simp_all add: disp_inv_def)
  obtain e1 d1 where s1: "deselect_prev d = Inr e1" "drive_and_select e1 = Inr d1"
      "refresh d = Inr d1" "lines_on e1 = []" "lines_on d1 = [nat ?c]"
      "current_digit d1 = (?c + 1) mod 4" "disp_inv d1"
    using refresh_ok[OF inv] by blast
  obtain e2 d2 where s2: "deselect_prev d1 = Inr e2" "drive_and_select e2 = Inr d2"
      "refresh d1 = Inr d2" "lines_on e2 = []" "lines_on d2 = [nat (current_digit d1)]"
      "current_digit d2 = (current_digit d1 + 1) mod 4" "disp_inv d2"
    using refresh_ok[OF s1(7)] by blast
  obtain e3 d3 where s3: "deselect_prev d2 = Inr e3" "drive_and_select e3 = Inr d3"
      "refresh d2 = Inr d3" "lines_on e3 = []" "lines_on d3 = [nat (current_digit d2)]"
      "current_digit d3 = (current_digit d2 + 1) mod 4" "disp_inv d3"
    using refresh_ok[OF s2(7)] by blast
  obtain e4 d4 where s4: "deselect_prev d3 = Inr e4" "drive_and_select e4 = Inr d4"
      "refresh d3 = Inr d4" "lines_on e4 = []" "lines_on d4 = [nat (current_digit d3)]"
      "current_digit d4 = (current_digit d3 + 1) mod 4" "disp_inv d4"
    using refresh_ok[OF s3(7)] by blast
  have c2: "current_digit d2 = (?c + 2) mod 4" unfolding s2(6) s1(6) by presburger
  have c3: "current_digit d3 = (?c + 3) mod 4" unfolding s3(6) c2 by presburger
  have c4: "current_digit d4 = ?c" unfolding s4(6) c3 using c by presburger
  have t0: "refresh_trace 0 d4 = Inr []" by simp
  have t1: "refresh_trace (Suc 0) d3 = Inr [e4, d4]"
    by (rule refresh_trace_Suc[OF s4(1) s4(2) t0])
  have t2: "refresh_trace (Suc (Suc 0)) d2 = Inr [e3, d3, e4, d4]"
    by (rule refresh_trace_Suc[OF s3(1) s3(2) t1])
  have t3: "refresh_trace (Suc (Suc (Suc 0))) d1 = Inr [e2, d2, e3, d3, e4, d4]"
    by (rule refresh_trace_Suc[OF s2(1) s2(2) t2])
  have t4: "refresh_trace (Suc (Suc (Suc (Suc 0)))) d = Inr [e1, d1, e2, d2, e3, d3, e4, d4]"
    by (rule refresh_trace_Suc[OF s1(1) s1(2) t3])
  have n4: "(4::nat) = Suc (Suc (Suc (Suc 0)))" by simp
  have tr: "refresh_trace 4 d = Inr [e1, d1, e2, d2, e3, d3, e4, d4]"
    unfolding n4 by (rule t4)
  have lines: "map lines_on [e1, d1, e2, d2, e3, d3, e4, d4] =
         [[], [nat ?c], [], [nat ((?c + 1) mod 4)],
          [], [nat ((?c + 2) mod 4)], [], [nat ((?c + 3) mod 4)]]"
    using s1(4,5) s2(4,5) s3(4,5) s4(4,5) s1(6) c2 c3 by simp
  have curs: "map current_digit [d1, d2, d3, d4] =
         [(?c + 1) mod 4, (?c + 2) mod 4, (?c + 3) mod 4, ?c]"
    using s1(6) c2 c3 c4 by simp
  have ex: "\<exists>e1 d1 e2 d2 e3 d3 e4 d4.
       refresh_trace 4 d = Inr [e1, d1, e2, d2, e3, d3, e4, d4] \<and>
       refresh d = Inr d1 \<and> refresh d1 = Inr d2 \<and> refresh d2 = Inr d3 \<and> refresh d3 = Inr d4 \<and>
       map lines_on [e1, d1, e2, d2, e3, d3, e4, d4] =
         [[], [nat ?c], [], [nat ((?c + 1) mod 4)],
          [], [nat ((?c + 2) mod 4)], [], [nat ((?c + 3) mod 4)]] \<and>
       map current_digit [d1, d2, d3, d4] =
         [(?c + 1) mod 4, (?c + 2) mod 4, (?c + 3) mod 4, ?c]"
    apply (rule exI[of _ e1], rule exI[of _ d1], rule exI[of _ e2], rule exI[of _ d2])
    apply (rule exI[of _ e3], rule exI[of _ d3], rule exI[of _ e4], rule exI[of _ d4])
    apply (intro conjI)
          apply (rule tr)
         apply (rule s1(3))
        apply (rule s2(3))
       apply (rule s3(3))
      apply (rule s4(3))
     apply (rule lines)
    apply (rule curs)
    done
  have one: "length (lines_on d) \<le> 1" by (rule lines_on_at_most_one[OF inv])
  from sel_perm[OF c] c one ex show ?thesis by (intro conjI) simp_all
qed

theorem refresh_cycle_witness:
  "reachable display_init \<and>
   (\<exists>sts. refresh_trace 4 display_init = Inr sts \<and>
      map lines_on sts = [[], [0], [], [1], [], [2], [], [3]])"
proof -
  have r: "reachable display_init" by (rule r_init)
  have c: "current_digit display_init = 0" by (simp add: display_init_def)
  from refresh_cycle[OF r] obtain e1 d1 e2 d2 e3 d3 e4 d4 where
    t: "refresh_trace 4 display_init = Inr [e1, d1, e2, d2, e3, d3, e4, d4]" and
    l: "map lines_on [e1, d1, e2, d2, e3, d3, e4, d4] =
         [[], [nat (current_digit display_init)], [],
          [nat ((current_digit display_init + 1) mod 4)],
          [], [nat ((current_digit display_init + 2) mod 4)], [],
          [nat ((current_digit display_init + 3) mod 4)]]"
    by (elim conjE exE)
  have "map lines_on [e1, d1, e2, d2, e3, d3, e4, d4] = [[], [0], [], [1], [], [2], [], [3]]"
    using l unfolding c by simp
  with t r show ?thesis by (intro conjI exI[of _ "[e1, d1, e2, d2, e3, d3, e4, d4]"])
qed


section \<open>Writing into the buffer\<close>

text \<open>
  C9. On a display object in any state it can reach, \<open>write\<close> of a string leaves a buffer
  of four cells holding the string's characters from the left: a string shorter than
  four is followed by blanks, a string of four is taken as it is, a longer one is cut to
  its first four characters.
\<close>

theorem write_pads_and_truncates:
  assumes "reachable d"
  shows "length (buffer (write_buf (PStr s) d)) = 4 \<and>
         (length s < 4 \<longrightarrow> buffer (write_buf (PStr s) d) = s @ replicate (4 - length s) CHR '' '') \<and>
         (length s = 4 \<longrightarrow> buffer (write_buf (PStr s) d) = s) \<and>
         (length s > 4 \<longrightarrow> buffer (write_buf (PStr s) d) = take 4 s) \<and>
         (\<forall>i<4. buffer (write_buf (PStr s) d) ! i = (if i < length s then s ! i else CHR '' ''))"
proof -
  have len: "length (digits d) = 4" using reachable_inv[OF assms] by (simp add: disp_inv_def)
  show ?thesis using len by (auto simp: write_buf_def Let_def nth_append)
qed

theorem write_pads_and_truncates_witness:
  "reachable display_init \<and>
   buffer (write_buf (PStr ''1'') display_init) = [CHR ''1'', CHR '' '', CHR '' '', CHR '' ''] \<and>
   buffer (write_buf (PStr ''12345'') display_init) = [CHR ''1'', CHR ''2'', CHR ''3'', CHR ''4'']"
  using write_pads_and_truncates[OF r_init, of "''1''"]
    write_pads_and_truncates[OF r_init, of "''12345''"] r_init
  by (simp add: numeral_eq_Suc)

lemma digit_char_0: "digit_char 0 = CHR ''0''"
  by (simp add: digit_char_def)

lemma nat_str_lt10: "n < 10 \<Longrightarrow> nat_str n = [digit_char n]"
  by (simp add: nat_str.simps)

lemma nat_str_lt100:
  "10 \<le> n \<Longrightarrow> n < 100 \<Longrightarrow> nat_str n = [digit_char (n div 10), digit_char (n mod 10)]"
  by (subst nat_str.simps) (simp add: nat_str_lt10)

text \<open>
  An object whose \<open>__str__\<close> divides by zero: \<open>write\<close> raises.
\<close>

theorem write_raises_counterexample:
  "write_arg (Object (Inl ZeroDivisionError)) display_init = Inl ZeroDivisionError"
  by (simp add: write_arg_def str_of_def bind_err_def)

text \<open>
  C10, as the code has it. \<open>write\<close> takes any argument and coerces it with \<open>str\<close>. When
  \<open>str\<close> raises, \<open>write\<close> raises that exception. When \<open>str\<close> returns a string, \<open>write\<close> returns,
  and the object differs from the one before the call in its buffer only (the dot mask,
  the cursor and the pins are untouched): the buffer is that string followed by blanks up
  to four cells, or its first four characters. For a string, an integer, a boolean and
  \<open>None\<close>, \<open>str\<close> returns, so \<open>write\<close> does not raise on them.
\<close>

theorem write_coerces_or_raises:
  assumes "reachable d"
  shows "(case str_of a of
            Inl e \<Rightarrow> write_arg a d = Inl e
          | Inr s \<Rightarrow>
              write_arg a d = Inr (d\<lparr> buffer := take 4 (s @ replicate (4 - length s) CHR '' '') \<rparr>)
              \<and> length (take 4 (s @ replicate (4 - length s) CHR '' '')) = 4) \<and>
         str_of (Builtin v) = Inr (py_str v) \<and>
         write_arg (Builtin v) d =
           Inr (d\<lparr> buffer := take 4 (py_str v @ replicate (4 - length (py_str v)) CHR '' '') \<rparr>)"
proof -
  have len: "length (digits d) = 4" using reachable_inv[OF assms] by (simp add: disp_inv_def)
  have w: "\<And>s. write_buf (PStr s) d
             = d\<lparr> buffer := take 4 (s @ replicate (4 - length s) CHR '' '') \<rparr>"
    using len by (simp add: write_buf_def Let_def)
  have l: "\<And>s::string. length (take 4 (s @ replicate (4 - length s) CHR '' '')) = 4"
    by simp
  have b: "str_of (Builtin v) = Inr (py_str v)" by (simp add: str_of_def)
  have c: "case str_of a of
            Inl e \<Rightarrow> write_arg a d = Inl e
          | Inr s \<Rightarrow>
              write_arg a d = Inr (d\<lparr> buffer := take 4 (s @ replicate (4 - length s) CHR '' '') \<rparr>)
              \<and> length (take 4 (s @ replicate (4 - length s) CHR '' '')) = 4"
    by (cases "str_of a") (simp_all add: write_arg_def bind_err_def w l)
  have e: "write_arg (Builtin v) d =
           Inr (d\<lparr> buffer := take 4 (py_str v @ replicate (4 - length (py_str v)) CHR '' '') \<rparr>)"
    by (simp add: write_arg_def bind_err_def b w)
  show ?thesis using c b e by (intro conjI)
qed

theorem write_coerces_or_raises_witness:
  "reachable (set_decimal_point 1 True display_init) \<and>
   write_arg (Builtin (PInt 7)) (set_decimal_point 1 True display_init)
     = Inr ((set_decimal_point 1 True display_init)\<lparr> buffer := ''7   '' \<rparr>) \<and>
   dotmask ((set_decimal_point 1 True display_init)\<lparr> buffer := ''7   '' \<rparr>)
     = [False, True, False, False] \<and>
   write_arg (Builtin (PInt (- 12345))) (set_decimal_point 1 True display_init)
     = Inr ((set_decimal_point 1 True display_init)\<lparr> buffer := ''-123'' \<rparr>) \<and>
   write_arg (Builtin (PBool False)) (set_decimal_point 1 True display_init)
     = Inr ((set_decimal_point 1 True display_init)\<lparr> buffer := ''Fals'' \<rparr>) \<and>
   write_arg (Builtin PNone) (set_decimal_point 1 True display_init)
     = Inr ((set_decimal_point 1 True display_init)\<lparr> buffer := ''None'' \<rparr>) \<and>
   write_arg (Object (Inr ''3.14159'')) (set_decimal_point 1 True display_init)
     = Inr ((set_decimal_point 1 True display_init)\<lparr> buffer := ''3.14'' \<rparr>) \<and>
   write_arg (Object (Inl IndexError)) (set_decimal_point 1 True display_init) = Inl IndexError"
proof -
  let ?d = "set_decimal_point 1 True display_init"
  have r: "reachable ?d" by (rule r_dot[OF r_init])
  have s7: "py_str (PInt 7) = ''7''" by (simp add: int_str_def nat_str_lt10 digit_char_def)
  have sm: "py_str (PInt (- 12345)) = ''-12345''"
    by (simp add: int_str_def nat_str.simps[of 12345] nat_str.simps[of 1234]
        nat_str.simps[of 123] nat_str.simps[of 12] nat_str_lt10 digit_char_def)
  have sb: "py_str (PBool False) = ''False''" by simp
  have sn: "py_str PNone = ''None''" by simp
  have dm: "dotmask (?d\<lparr> buffer := ''7   '' \<rparr>) = [False, True, False, False]"
    by (simp add: set_decimal_point_def display_init_def numeral_eq_Suc)
  have p7: "take 4 (''7'' @ replicate (4 - length ''7'') CHR '' '') = ''7   ''" by code_simp
  have pm: "take 4 (''-12345'' @ replicate (4 - length ''-12345'') CHR '' '') = ''-123''"
    by code_simp
  have pb: "take 4 (''False'' @ replicate (4 - length ''False'') CHR '' '') = ''Fals''"
    by code_simp
  have pn: "take 4 (''None'' @ replicate (4 - length ''None'') CHR '' '') = ''None''"
    by code_simp
  note t = write_coerces_or_raises[OF r, THEN conjunct2, THEN conjunct2]
  have a: "write_arg (Builtin (PInt 7)) ?d = Inr (?d\<lparr> buffer := ''7   '' \<rparr>)"
    using t[of "PInt 7"] unfolding s7 p7 .
  have b: "write_arg (Builtin (PInt (- 12345))) ?d = Inr (?d\<lparr> buffer := ''-123'' \<rparr>)"
    using t[of "PInt (- 12345)"] unfolding sm pm .
  have c: "write_arg (Builtin (PBool False)) ?d = Inr (?d\<lparr> buffer := ''Fals'' \<rparr>)"
    using t[of "PBool False"] unfolding sb pb .
  have d: "write_arg (Builtin PNone) ?d = Inr (?d\<lparr> buffer := ''None'' \<rparr>)"
    using t[of PNone] unfolding sn pn .
  have po: "take 4 (''3.14159'' @ replicate (4 - length ''3.14159'') CHR '' '') = ''3.14''"
    by code_simp
  have so: "str_of (Object (Inr ''3.14159'')) = Inr ''3.14159''"
    "str_of (Object (Inl IndexError)) = Inl IndexError"
    by (simp_all add: str_of_def)
  have e: "write_arg (Object (Inr ''3.14159'')) ?d = Inr (?d\<lparr> buffer := ''3.14'' \<rparr>)"
    using write_coerces_or_raises[OF r, of "Object (Inr ''3.14159'')", THEN conjunct1]
    unfolding so po by simp
  have f: "write_arg (Object (Inl IndexError)) ?d = Inl IndexError"
    using write_coerces_or_raises[OF r, of "Object (Inl IndexError)", THEN conjunct1]
    unfolding so by simp
  show ?thesis using r a dm b c d e f by (intro conjI)
qed


section \<open>The frame of a countdown second\<close>

lemma fmt02_two_digits:
  assumes "0 \<le> i" "i < 100"
  shows "fmt02 i = [digit_char (nat i div 10), digit_char (nat i mod 10)]"
proof (cases "nat i < 10")
  case True
  then show ?thesis using assms
    by (simp add: fmt02_def zero_fill_def nat_str_lt10 digit_char_0)
next
  case False
  then show ?thesis using assms
    by (simp add: fmt02_def zero_fill_def nat_str_lt100)
qed

lemma countdown_frame_digits:
  assumes "0 \<le> secs" "secs \<le> 5999"
  shows "countdown_frame secs =
      [digit_char (nat (secs div 60) div 10), digit_char (nat (secs div 60) mod 10),
       digit_char (nat (secs mod 60) div 10), digit_char (nat (secs mod 60) mod 10)]"
proof -
  have m: "0 \<le> secs div 60" "secs div 60 < 100" using assms by auto
  have r: "0 \<le> secs mod 60" "secs mod 60 < 100" by auto
  show ?thesis
    unfolding countdown_frame_def fmt02_two_digits[OF m] fmt02_two_digits[OF r] by simp
qed

lemma tick_body_frame:
  "frame (tick_body c inp s) = countdown_frame (seconds s)"
  "seconds (tick_body c inp s) = seconds s"
  "pc (tick_body c inp s) = Polling"
  "end_time (tick_body c inp s) = ticks_add (now inp) 1000"
  "paused_flag (tick_body c inp s) = paused_flag s"
  by (simp_all add: tick_body_def Let_def split: option.splits)

lemma tick_body_log:
  "List.last (log (cd_world (tick_body c inp s))) = EvWrite (countdown_frame (seconds s))"
  by (simp add: tick_body_def Let_def display_write_def emit_def split: option.splits)

lemma tick_body_disp:
  "disp (cd_world (tick_body c inp s))
     = write_buf (PStr (countdown_frame (seconds s))) (disp (cd_world s))"
  by (simp add: tick_body_def Let_def display_write_def emit_def update_led_def
      split: option.splits)

text \<open>
  C6. At the head of the outer loop with \<open>seconds\<close> in \<open>[0, 5999]\<close>, the frame the
  countdown computes, passes to \<open>display.write\<close> and thereby stores in the buffer is the
  four characters: tens and units of \<open>seconds // 60\<close>, then tens and units of
  \<open>seconds % 60\<close>.
\<close>

theorem frame_mmss:
  assumes "pc s = AtTick" "0 \<le> seconds s" "seconds s \<le> 5999" "reachable (disp (cd_world s))"
  shows "countdown_frame (seconds s) =
      [digit_char (nat (seconds s div 60) div 10), digit_char (nat (seconds s div 60) mod 10),
       digit_char (nat (seconds s mod 60) div 10), digit_char (nat (seconds s mod 60) mod 10)]
     \<and> length (countdown_frame (seconds s)) = 4
     \<and> frame (countdown_step c inp s) = countdown_frame (seconds s)
     \<and> List.last (log (cd_world (countdown_step c inp s))) = EvWrite (countdown_frame (seconds s))
     \<and> buffer (disp (cd_world (countdown_step c inp s))) = countdown_frame (seconds s)"
proof -
  note f = countdown_frame_digits[OF assms(2,3)]
  have l: "length (countdown_frame (seconds s)) = 4" unfolding f by simp
  have st: "countdown_step c inp s = tick_body c inp s"
    using assms(1,2) by (simp add: countdown_step_def)
  have len: "length (digits (disp (cd_world s))) = 4"
    using reachable_inv[OF assms(4)] by (simp add: disp_inv_def)
  have b: "buffer (disp (cd_world (tick_body c inp s))) = countdown_frame (seconds s)"
    unfolding tick_body_disp using l len by (simp add: write_buf_def Let_def)
  show ?thesis unfolding st tick_body_frame tick_body_log b using f l by simp
qed

theorem frame_mmss_witness:
  "countdown_frame 125 = ''0205'' \<and>
   buffer (disp (cd_world (countdown_step None (idle 0)
     (countdown_init 125 False \<lparr> disp = display_init, log = [], threads = [] \<rparr>)))) = ''0205''"
proof -
  let ?s = "countdown_init 125 False \<lparr> disp = display_init, log = [], threads = [] \<rparr>"
  have a: "pc ?s = AtTick" "0 \<le> seconds ?s" "seconds ?s \<le> 5999" "seconds ?s = 125"
    by (simp_all add: countdown_init_def)
  have r: "reachable (disp (cd_world ?s))" using r_init by (simp add: countdown_init_def)
  show ?thesis using frame_mmss[OF a(1-3) r, of None "idle 0"] unfolding a(4)
    by (simp add: digit_char_def)
qed


section \<open>States of a countdown\<close>

lemma world_disp [simp]:
  "disp (sleep_ms k w) = disp w"
  "disp (update_led col w) = disp w"
  "disp (play_jingle j w) = disp w"
  "disp (display_write fr w) = write_buf (PStr fr) (disp w)"
  "disp (display_clear w) = clear (disp w)"
  by (simp_all add: sleep_ms_def update_led_def play_jingle_def display_write_def
      display_clear_def emit_def)

lemma world_leds [simp]:
  "led_events (sleep_ms k w) = led_events w"
  "led_events (update_led col w) = led_events w @ [EvLed col]"
  "led_events (play_jingle j w) = led_events w"
  "led_events (display_write fr w) = led_events w"
  "led_events (display_clear w) = led_events w"
  by (simp_all add: led_events_def sleep_ms_def update_led_def play_jingle_def display_write_def
      display_clear_def emit_def is_led_def)

lemma cd_inv_init:
  "0 \<le> n \<Longrightarrow> reachable (disp w) \<Longrightarrow> cd_inv n (countdown_init n p w)"
  by (simp add: cd_inv_def countdown_init_def)

lemma cd_inv_step:
  assumes "cd_inv n s"
  shows "cd_inv n (countdown_step c inp s)"
proof (cases "pc s")
  case AtTick
  show ?thesis
  proof (cases "0 \<le> seconds s")
    case True
    then have st: "countdown_step c inp s = tick_body c inp s"
      using AtTick by (simp add: countdown_step_def)
    have "reachable (disp (cd_world (tick_body c inp s)))"
      unfolding tick_body_disp using assms by (simp add: cd_inv_def r_write)
    then show ?thesis unfolding st using assms True
      by (simp add: cd_inv_def tick_body_frame)
  next
    case False
    then show ?thesis using assms AtTick by (simp add: countdown_step_def cd_inv_def)
  qed
next
  case Polling
  then show ?thesis using assms
    by (auto simp: countdown_step_def poll_body_def cd_inv_def Let_def)
next
  case PausedLoop
  then show ?thesis using assms
    by (auto simp: countdown_step_def paused_body_def cd_inv_def Let_def r_write r_clear)
next
  case Returned
  then show ?thesis using assms by (simp add: countdown_step_def)
next
  case CalledMain
  then show ?thesis using assms by (simp add: countdown_step_def)
qed

lemma cd_inv_run: "cd_inv n s \<Longrightarrow> cd_inv n (countdown_run c inps s)"
  by (induction inps arbitrary: s) (simp_all add: cd_inv_step)

lemma paused_step_held:
  assumes "pc s = PausedLoop" "paused_flag s" "\<not> py_not (confirm inp)"
  shows "pc (countdown_step c inp s) = PausedLoop" "paused_flag (countdown_step c inp s)"
    "seconds (countdown_step c inp s) = seconds s" "frame (countdown_step c inp s) = frame s"
    "disp (cd_world (countdown_step c inp s)) =
       (if (now inp div 500) mod 2 = 0 then write_buf (PStr (frame s)) (disp (cd_world s))
        else clear (disp (cd_world s)))"
  using assms by (simp_all add: countdown_step_def paused_body_def Let_def)

lemma paused_step_resume:
  assumes "pc s = PausedLoop" "paused_flag s" "py_not (confirm inp)"
  shows "pc (countdown_step c inp s) = Polling" "\<not> paused_flag (countdown_step c inp s)"
    "seconds (countdown_step c inp s) = seconds s" "frame (countdown_step c inp s) = frame s"
    "disp (cd_world (countdown_step c inp s)) = disp (cd_world s)"
  using assms by (simp_all add: countdown_step_def paused_body_def Let_def)

lemma paused_run_held:
  assumes "pc s = PausedLoop" "paused_flag s" "\<forall>i\<in>set held. \<not> py_not (confirm i)"
  shows "pc (countdown_run c held s) = PausedLoop \<and> paused_flag (countdown_run c held s) \<and>
    seconds (countdown_run c held s) = seconds s \<and> frame (countdown_run c held s) = frame s"
  using assms
proof (induction held arbitrary: s)
  case Nil
  then show ?case by simp
next
  case (Cons i held)
  have i: "\<not> py_not (confirm i)" using Cons.prems(3) by simp
  note h = paused_step_held[OF Cons.prems(1,2) i, of c]
  have "\<forall>i\<in>set held. \<not> py_not (confirm i)" using Cons.prems(3) by simp
  from Cons.IH[OF h(1) h(2) this] show ?case by (simp add: h)
qed


section \<open>The pause loop\<close>

text \<open>
  C8. Take a countdown of at most 5999 seconds that has reached the pause loop, and let it
  make any number of passes there with the confirm button released. It is still in the
  pause loop, \<open>seconds\<close> is what it was when the pause began and \<open>frame\<close> is the frame of
  that second. One more pass reads the confirm button: released, the pass stays in the
  pause loop and leaves in the buffer the frame when \<open>(now // 500) % 2 == 0\<close> and four
  blanks otherwise; pressed, the pass clears the pause flag and goes back to the polling
  loop; \<open>seconds\<close> is unchanged either way.
\<close>

theorem paused_blinks_and_holds:
  assumes "0 \<le> n" "n \<le> 5999" "reachable (disp w)"
    and "pc (countdown_run c inps (countdown_init n p w)) = PausedLoop"
    and "\<forall>i\<in>set held. \<not> py_not (confirm i)"
  shows "let s = countdown_run c inps (countdown_init n p w);
             s1 = countdown_run c held s;
             s2 = countdown_step c inp s1
         in pc s1 = PausedLoop \<and> seconds s1 = seconds s \<and> 0 \<le> seconds s \<and>
            frame s1 = countdown_frame (seconds s) \<and> seconds s2 = seconds s \<and>
            (if py_not (confirm inp)
             then pc s2 = Polling \<and> \<not> paused_flag s2 \<and>
                  disp (cd_world s2) = disp (cd_world s1)
             else pc s2 = PausedLoop \<and>
                  buffer (disp (cd_world s2)) =
                    (if (now inp div 500) mod 2 = 0 then countdown_frame (seconds s)
                     else replicate 4 CHR '' ''))"
proof -
  define s where "s = countdown_run c inps (countdown_init n p w)"
  define s1 where "s1 = countdown_run c held s"
  define s2 where "s2 = countdown_step c inp s1"
  have inv: "cd_inv n s" unfolding s_def by (rule cd_inv_run[OF cd_inv_init[OF assms(1,3)]])
  have pcs: "pc s = PausedLoop" using assms(4) by (simp add: s_def)
  have pf: "paused_flag s" and fr: "frame s = countdown_frame (seconds s)"
    and lo: "0 \<le> seconds s" and hi: "seconds s \<le> 5999"
    using inv pcs assms(2) by (auto simp: cd_inv_def)
  have h: "pc s1 = PausedLoop" "paused_flag s1" "seconds s1 = seconds s" "frame s1 = frame s"
    using paused_run_held[OF pcs pf assms(5), of c] by (simp_all add: s1_def)
  have inv1: "cd_inv n s1" unfolding s1_def by (rule cd_inv_run[OF inv])
  have len: "length (digits (disp (cd_world s1))) = 4"
    using inv1 reachable_inv[of "disp (cd_world s1)"] by (simp add: cd_inv_def disp_inv_def)
  have l4: "length (countdown_frame (seconds s)) = 4"
    unfolding countdown_frame_digits[OF lo hi] by simp
  have step: "if py_not (confirm inp)
             then pc s2 = Polling \<and> \<not> paused_flag s2 \<and>
                  disp (cd_world s2) = disp (cd_world s1)
             else pc s2 = PausedLoop \<and>
                  buffer (disp (cd_world s2)) =
                    (if (now inp div 500) mod 2 = 0 then countdown_frame (seconds s)
                     else replicate 4 CHR '' '')"
  proof (cases "py_not (confirm inp)")
    case True
    show ?thesis using paused_step_resume[OF h(1,2) True, of c] True by (simp add: s2_def)
  next
    case False
    show ?thesis using paused_step_held[OF h(1,2) False, of c] False len l4
      by (simp add: s2_def h fr write_buf_def clear_def Let_def)
  qed
  have sec2: "seconds s2 = seconds s"
  proof (cases "py_not (confirm inp)")
    case True
    show ?thesis using paused_step_resume[OF h(1,2) True, of c] h by (simp add: s2_def)
  next
    case False
    show ?thesis using paused_step_held[OF h(1,2) False, of c] h by (simp add: s2_def)
  qed
  show ?thesis
    using h lo fr step sec2 unfolding Let_def s_def[symmetric] s1_def[symmetric] s2_def[symmetric]
    by simp
qed

theorem paused_blinks_and_holds_witness:
  "pc (countdown_run None [idle 0, press_confirm 100] (countdown_init 125 False boot_world))
     = PausedLoop \<and>
   buffer (disp (cd_world (countdown_step None (idle 600) (countdown_run None [idle 200]
     (countdown_run None [idle 0, press_confirm 100] (countdown_init 125 False boot_world))))))
     = ''    '' \<and>
   buffer (disp (cd_world (countdown_step None (idle 1100) (countdown_run None [idle 200]
     (countdown_run None [idle 0, press_confirm 100] (countdown_init 125 False boot_world))))))
     = ''0205'' \<and>
   pc (countdown_step None (press_confirm 700) (countdown_run None [idle 200]
     (countdown_run None [idle 0, press_confirm 100] (countdown_init 125 False boot_world))))
     = Polling \<and>
   seconds (countdown_step None (press_confirm 700) (countdown_run None [idle 200]
     (countdown_run None [idle 0, press_confirm 100] (countdown_init 125 False boot_world))))
     = 125"
proof -
  let ?s = "countdown_run None [idle 0, press_confirm 100] (countdown_init 125 False boot_world)"
  have a: "pc ?s = PausedLoop" by code_simp
  have sec: "seconds ?s = 125" by code_simp
  have r: "reachable (disp boot_world)" using r_init by (simp add: boot_world_def)
  have h: "\<forall>i\<in>set [idle 200]. \<not> py_not (confirm i)" by (simp add: idle_def py_not_def)
  have f: "countdown_frame 125 = ''0205''"
    using countdown_frame_digits[of 125] by (simp add: digit_char_def)
  have i1: "\<not> py_not (confirm (idle 600))" "(now (idle 600) div 500) mod 2 \<noteq> 0"
    by (simp_all add: idle_def py_not_def)
  have i2: "\<not> py_not (confirm (idle 1100))" "(now (idle 1100) div 500) mod 2 = 0"
    by (simp_all add: idle_def py_not_def)
  have i3: "py_not (confirm (press_confirm 700))"
    by (simp add: idle_def press_confirm_def py_not_def)
  have n: "(0::int) \<le> 125" "(125::int) \<le> 5999" by simp_all
  note t = paused_blinks_and_holds[OF n r a h, unfolded Let_def sec f]
  have b1: "buffer (disp (cd_world (countdown_step None (idle 600)
              (countdown_run None [idle 200] ?s)))) = replicate 4 CHR '' ''"
    using t[of "idle 600"] i1 by simp
  have b2: "buffer (disp (cd_world (countdown_step None (idle 1100)
              (countdown_run None [idle 200] ?s)))) = ''0205''"
    using t[of "idle 1100"] i2 by simp
  have b3: "pc (countdown_step None (press_confirm 700) (countdown_run None [idle 200] ?s))
              = Polling"
       "seconds (countdown_step None (press_confirm 700) (countdown_run None [idle 200] ?s))
              = 125"
    using t[of "press_confirm 700"] i3 by simp_all
  have r4: "replicate 4 CHR '' '' = ''    ''" by (simp add: numeral_eq_Suc)
  show ?thesis using a b1 b2 b3 unfolding r4 by (intro conjI)
qed


section \<open>The last-minute colour\<close>

lemma led_step:
  assumes "led_events (cd_world s) = pre @ (if past_minute_mark s then [EvLed col] else [])"
    "color_changed s = past_minute_mark s"
  shows "led_events (cd_world (countdown_step (Some col) inp s)) =
           pre @ (if past_minute_mark (countdown_step (Some col) inp s) then [EvLed col] else [])
    \<and> color_changed (countdown_step (Some col) inp s) =
           past_minute_mark (countdown_step (Some col) inp s)
    \<and> ((led_events (cd_world (countdown_step (Some col) inp s)) \<noteq> led_events (cd_world s))
       = (pc s = AtTick \<and> seconds s = 60))"
proof (cases "pc s")
  case AtTick
  then show ?thesis using assms(1,2)
    by (auto simp: countdown_step_def tick_body_def past_minute_mark_def Let_def)
next
  case Polling
  then show ?thesis using assms(1,2)
    by (auto simp: countdown_step_def poll_body_def past_minute_mark_def Let_def)
next
  case PausedLoop
  then show ?thesis using assms(1,2)
    by (auto simp: countdown_step_def paused_body_def past_minute_mark_def Let_def)
next
  case Returned
  then show ?thesis using assms(1,2)
    by (auto simp: countdown_step_def past_minute_mark_def)
next
  case CalledMain
  then show ?thesis using assms(1,2)
    by (auto simp: countdown_step_def past_minute_mark_def)
qed

lemma led_run:
  assumes "led_events (cd_world s) = pre @ (if past_minute_mark s then [EvLed col] else [])"
    "color_changed s = past_minute_mark s"
  shows "led_events (cd_world (countdown_run (Some col) inps s)) =
           pre @ (if past_minute_mark (countdown_run (Some col) inps s) then [EvLed col] else [])
       \<and> color_changed (countdown_run (Some col) inps s) =
           past_minute_mark (countdown_run (Some col) inps s)"
  using assms
proof (induction inps arbitrary: s)
  case Nil
  then show ?case by simp
next
  case (Cons i inps)
  note st = led_step[OF Cons.prems, of i]
  from Cons.IH[OF conjunct1[OF st] conjunct1[OF conjunct2[OF st]]]
  show ?case by simp
qed

text \<open>
  C4. In a countdown of at least 60 seconds with a last-minute colour, whatever the
  buttons and the clock do: the calls of \<open>update_led\<close> made so far are none before the
  loop head of second 60 has run and exactly one, with the last-minute colour, from then
  on; and a pass makes such a call exactly when it is the loop head at \<open>seconds = 60\<close>.
  Pausing and resuming during second 60 does not pass the loop head again.
\<close>

theorem last_minute_led_once:
  assumes "60 \<le> n"
  shows "let s = countdown_run (Some col) inps (countdown_init n p w) in
     led_events (cd_world s) = led_events w @ (if past_minute_mark s then [EvLed col] else []) \<and>
     ((led_events (cd_world (countdown_step (Some col) inp s)) \<noteq> led_events (cd_world s))
        = (pc s = AtTick \<and> seconds s = 60))"
proof -
  let ?i = "countdown_init n p w"
  have pm: "\<not> past_minute_mark ?i" using assms
    by (simp add: past_minute_mark_def countdown_init_def)
  have a: "led_events (cd_world ?i) = led_events w @ (if past_minute_mark ?i then [EvLed col] else [])"
    using pm by (simp add: countdown_init_def)
  have b: "color_changed ?i = past_minute_mark ?i"
    using pm by (simp add: countdown_init_def)
  note r = led_run[OF a b, of inps]
  note st = led_step[OF conjunct1[OF r] conjunct2[OF r], of inp]
  show ?thesis unfolding Let_def using conjunct1[OF r] conjunct2[OF conjunct2[OF st]]
    by (intro conjI)
qed

theorem last_minute_led_once_witness:
  "(60::int) \<le> 61 \<and>
   led_events (cd_world (countdown_run (Some (255, 255, 0))
       [idle 0, idle 1000, idle 1000, press_confirm 1100, idle 1200, press_confirm 1700,
        idle 2000, idle 2000, idle 2500]
       (countdown_init 61 False boot_world))) = [EvLed (255, 255, 0)] \<and>
   led_events (cd_world (countdown_run (Some (255, 255, 0)) [idle 0, idle 1000]
       (countdown_init 61 False boot_world))) = []"
proof -
  have pm: "past_minute_mark (countdown_run (Some (255, 255, 0))
       [idle 0, idle 1000, idle 1000, press_confirm 1100, idle 1200, press_confirm 1700,
        idle 2000, idle 2000, idle 2500]
       (countdown_init 61 False boot_world))" by code_simp
  have pm2: "\<not> past_minute_mark (countdown_run (Some (255, 255, 0)) [idle 0, idle 1000]
       (countdown_init 61 False boot_world))" by code_simp
  have l: "led_events boot_world = []" by (simp add: led_events_def boot_world_def)
  have n: "(60::int) \<le> 61" by simp
  note t = last_minute_led_once[OF n, unfolded Let_def, THEN conjunct1]
  show ?thesis
    using t[of "(255, 255, 0)" "[idle 0, idle 1000, idle 1000, press_confirm 1100, idle 1200,
        press_confirm 1700, idle 2000, idle 2000, idle 2500]" False boot_world]
      t[of "(255, 255, 0)" "[idle 0, idle 1000]" False boot_world] pm pm2
    unfolding l by simp
qed


section \<open>When a countdown ends\<close>

lemma ticks_diff_same: "ticks_diff a a = 0"
  by (simp add: ticks_diff_def TICKS_PERIOD_def)

lemma step_returns_iff:
  "(pc (countdown_step c inp s) = Returned) = (pc s = Returned \<or> (pc s = AtTick \<and> seconds s < 0))"
  by (cases "pc s")
    (auto simp: countdown_step_def tick_body_frame poll_body_def paused_body_def Let_def)

lemma now_idle: "now (idle t) = t"
  by (simp add: idle_def)

lemma step_polling_due:
  "pc x = Polling \<Longrightarrow> ticks_diff (end_time x) (now inp) \<le> 0 \<Longrightarrow>
     countdown_step c inp x = x\<lparr> seconds := seconds x - 1, pc := AtTick \<rparr>"
  by (simp add: countdown_step_def poll_body_def)

lemma one_second:
  assumes "pc s = AtTick" "0 \<le> seconds s"
  shows "pc (countdown_run c [idle t, idle (ticks_add t 1000)] s) = AtTick \<and>
         seconds (countdown_run c [idle t, idle (ticks_add t 1000)] s) = seconds s - 1"
proof -
  let ?s1 = "countdown_step c (idle t) s"
  have st: "?s1 = tick_body c (idle t) s"
    using assms by (simp add: countdown_step_def)
  have s1: "pc ?s1 = Polling" "end_time ?s1 = ticks_add t 1000" "seconds ?s1 = seconds s"
    unfolding st by (simp_all add: tick_body_frame now_idle)
  have "countdown_step c (idle (ticks_add t 1000)) ?s1 = ?s1\<lparr> seconds := seconds ?s1 - 1, pc := AtTick \<rparr>"
    by (rule step_polling_due[OF s1(1)]) (simp add: s1(2) now_idle ticks_diff_same)
  then show ?thesis using s1(3) by simp
qed

lemma seconds_run:
  assumes "pc s = AtTick" "int k \<le> seconds s + 1"
  shows "pc (countdown_run c (second_readings t k) s) = AtTick \<and>
         seconds (countdown_run c (second_readings t k) s) = seconds s - int k"
  using assms
proof (induction k arbitrary: s t)
  case 0
  then show ?case by simp
next
  case (Suc k)
  have nn: "0 \<le> seconds s" using Suc.prems(2) by simp
  let ?s1 = "countdown_run c [idle t, idle (ticks_add t 1000)] s"
  note o = one_second[OF Suc.prems(1) nn, of c t]
  have le: "int k \<le> seconds ?s1 + 1" using o Suc.prems(2) by simp
  have "countdown_run c (second_readings t (Suc k)) s
          = countdown_run c (second_readings (ticks_add t 1000) k) ?s1" by simp
  then show ?case using Suc.IH[OF conjunct1[OF o] le, of "ticks_add t 1000"] o by simp
qed

text \<open>
  A countdown of 125 seconds that has run 125 undisturbed seconds is at the head of the
  outer loop with \<open>seconds = 0\<close>: the next pass does not return, it writes the frame
  \<open>0000\<close> and waits a further second. A countdown of 0 seconds likewise writes \<open>0000\<close>
  and is still polling 999 ms later.
\<close>

theorem done_after_n_ticks_counterexample:
  "pc (countdown_run None (second_readings 0 125) (countdown_init 125 False boot_world)) = AtTick \<and>
   seconds (countdown_run None (second_readings 0 125) (countdown_init 125 False boot_world)) = 0 \<and>
   pc (countdown_step None (idle 125000)
      (countdown_run None (second_readings 0 125) (countdown_init 125 False boot_world))) = Polling \<and>
   frame (countdown_step None (idle 125000)
      (countdown_run None (second_readings 0 125) (countdown_init 125 False boot_world))) = ''0000'' \<and>
   pc (countdown_step None (idle 0) (countdown_init 0 False boot_world)) = Polling \<and>
   frame (countdown_step None (idle 0) (countdown_init 0 False boot_world)) = ''0000'' \<and>
   pc (countdown_run None [idle 0, idle 400, idle 999] (countdown_init 0 False boot_world))
     = Polling"
proof -
  let ?s = "countdown_run None (second_readings 0 125) (countdown_init 125 False boot_world)"
  have i: "pc (countdown_init 125 False boot_world) = AtTick"
    "int 125 \<le> seconds (countdown_init 125 False boot_world) + 1"
    "seconds (countdown_init 125 False boot_world) = 125"
    by (simp_all add: countdown_init_def)
  note r = seconds_run[OF i(1,2), of None 0, unfolded i(3)]
  have a: "pc ?s = AtTick" and b: "seconds ?s = 0" using r by simp_all
  have f: "countdown_frame 0 = ''0000''" using countdown_frame_digits[of 0]
    by (simp add: digit_char_def)
  have c: "pc (countdown_step None (idle 125000) ?s) = Polling"
    "frame (countdown_step None (idle 125000) ?s) = ''0000''"
    using a b f by (simp_all add: countdown_step_def tick_body_frame)
  have d: "pc (countdown_step None (idle 0) (countdown_init 0 False boot_world)) = Polling"
    "frame (countdown_step None (idle 0) (countdown_init 0 False boot_world)) = ''0000''"
    using f by (simp_all add: countdown_step_def tick_body_frame countdown_init_def)
  have e: "pc (countdown_run None [idle 0, idle 400, idle 999] (countdown_init 0 False boot_world))
     = Polling" by code_simp
  show ?thesis using a b c d e by (intro conjI)
qed

text \<open>
  C3, as the code has it. A countdown returns exactly at a test of the outer loop that
  finds \<open>seconds < 0\<close>. Started with \<open>n \<ge> 0\<close>, after \<open>k \<le> n + 1\<close> undisturbed seconds it
  is at the head of the outer loop with \<open>seconds = n - k\<close>; for \<open>k \<le> n\<close> the next pass
  writes the frame of \<open>n - k\<close>, and it returns exactly for \<open>k = n + 1\<close>. So 125 shows
  \<open>0205\<close> first, \<open>0100\<close> after 65 seconds, \<open>0000\<close> after 125, and returns after 126; a
  countdown of 0 shows \<open>0000\<close> for one second and then returns.
\<close>

theorem countdown_ends_below_zero:
  assumes "0 \<le> n" "int k \<le> n + 1"
  shows "pc (countdown_run c (second_readings t k) (countdown_init n p w)) = AtTick \<and>
     seconds (countdown_run c (second_readings t k) (countdown_init n p w)) = n - int k \<and>
     (pc (countdown_step c inp (countdown_run c (second_readings t k) (countdown_init n p w)))
        = Returned) = (int k = n + 1) \<and>
     (int k \<le> n \<longrightarrow>
        pc (countdown_step c inp (countdown_run c (second_readings t k) (countdown_init n p w)))
          = Polling \<and>
        frame (countdown_step c inp (countdown_run c (second_readings t k) (countdown_init n p w)))
          = countdown_frame (n - int k)) \<and>
     (pc (countdown_step c inp s) = Returned)
        = (pc s = Returned \<or> (pc s = AtTick \<and> seconds s < 0))"
proof -
  let ?s = "countdown_run c (second_readings t k) (countdown_init n p w)"
  have i: "pc (countdown_init n p w) = AtTick" "seconds (countdown_init n p w) = n"
    by (simp_all add: countdown_init_def)
  have le: "int k \<le> seconds (countdown_init n p w) + 1" using assms(2) i by simp
  note r = seconds_run[OF i(1) le, of c t, unfolded i(2)]
  have a: "pc ?s = AtTick" and b: "seconds ?s = n - int k" using r by simp_all
  have ret: "(pc (countdown_step c inp ?s) = Returned) = (int k = n + 1)"
    unfolding step_returns_iff a b using assms(2) by auto
  have fr: "int k \<le> n \<longrightarrow> pc (countdown_step c inp ?s) = Polling \<and>
        frame (countdown_step c inp ?s) = countdown_frame (n - int k)"
    using a b by (simp add: countdown_step_def tick_body_frame)
  show ?thesis using a b ret fr step_returns_iff[of c inp s] by (intro conjI)
qed

theorem countdown_ends_below_zero_witness:
  "frame (countdown_step None (idle 0)
      (countdown_run None (second_readings 0 0) (countdown_init 125 False boot_world))) = ''0205'' \<and>
   frame (countdown_step None (idle 65000)
      (countdown_run None (second_readings 0 65) (countdown_init 125 False boot_world))) = ''0100'' \<and>
   frame (countdown_step None (idle 125000)
      (countdown_run None (second_readings 0 125) (countdown_init 125 False boot_world))) = ''0000'' \<and>
   pc (countdown_step None (idle 126000)
      (countdown_run None (second_readings 0 126) (countdown_init 125 False boot_world))) = Returned"
proof -
  have n: "(0::int) \<le> 125" by simp
  have k: "int 0 \<le> 125 + 1" "int 65 \<le> 125 + 1" "int 125 \<le> 125 + 1" "int 126 \<le> 125 + 1"
    by simp_all
  have f: "countdown_frame (125 - int 0) = ''0205''" "countdown_frame (125 - int 65) = ''0100''"
    "countdown_frame (125 - int 125) = ''0000''"
    using countdown_frame_digits[of 125] countdown_frame_digits[of 60] countdown_frame_digits[of 0]
    by (simp_all add: digit_char_def)
  have le: "int 0 \<le> 125" "int 65 \<le> 125" "int 125 \<le> 125" "int 126 = 125 + 1" by simp_all
  note t0 = countdown_ends_below_zero[OF n k(1), of None 0 False boot_world "idle 0"]
  note t65 = countdown_ends_below_zero[OF n k(2), of None 0 False boot_world "idle 65000"]
  note t125 = countdown_ends_below_zero[OF n k(3), of None 0 False boot_world "idle 125000"]
  note t126 = countdown_ends_below_zero[OF n k(4), of None 0 False boot_world "idle 126000"]
  have a: "frame (countdown_step None (idle 0)
      (countdown_run None (second_readings 0 0) (countdown_init 125 False boot_world))) = ''0205''"
    using t0 le(1) unfolding f by blast
  have b: "frame (countdown_step None (idle 65000)
      (countdown_run None (second_readings 0 65) (countdown_init 125 False boot_world))) = ''0100''"
    using t65 le(2) unfolding f by blast
  have c: "frame (countdown_step None (idle 125000)
      (countdown_run None (second_readings 0 125) (countdown_init 125 False boot_world))) = ''0000''"
    using t125 le(3) unfolding f by blast
  have d: "pc (countdown_step None (idle 126000)
      (countdown_run None (second_readings 0 126) (countdown_init 125 False boot_world))) = Returned"
    using t126 le(4) by blast
  show ?thesis using a b c d by (intro conjI)
qed


section \<open>The deadline of a tick\<close>

lemma ticks_add_same_iff:
  "(ticks_add a d = ticks_add b d) = (a mod TICKS_PERIOD = b mod TICKS_PERIOD)"
  by (simp add: ticks_add_def mod_eq_dvd_iff)

lemma step_at_tick:
  "pc x = AtTick \<Longrightarrow> 0 \<le> seconds x \<Longrightarrow> countdown_step c inp x = tick_body c inp x"
  by (simp add: countdown_step_def)

text \<open>
  A countdown whose first deadline is 1000 and whose inner loop finds that deadline
  passed at clock value 1003, the next loop head reading the clock at 1005: the second
  deadline is 2005, not 2000.
\<close>

theorem deadline_recomputed_counterexample:
  "pc (countdown_run None [idle 0] (countdown_init 125 False boot_world)) = Polling \<and>
   end_time (countdown_run None [idle 0] (countdown_init 125 False boot_world)) = 1000 \<and>
   pc (countdown_run None [idle 0, idle 400, idle 1003, idle 1005]
        (countdown_init 125 False boot_world)) = Polling \<and>
   seconds (countdown_run None [idle 0, idle 400, idle 1003, idle 1005]
        (countdown_init 125 False boot_world)) = 124 \<and>
   end_time (countdown_run None [idle 0, idle 400, idle 1003, idle 1005]
        (countdown_init 125 False boot_world)) = 2005 \<and>
   ticks_add (end_time (countdown_run None [idle 0] (countdown_init 125 False boot_world))) 1000
     = 2000"
  by code_simp

text \<open>
  C1, as the code has it. The inner loop is left exactly by a pass that finds
  \<open>ticks_diff(end_time, ticks_ms()) \<le> 0\<close>; that pass decrements \<open>seconds\<close>, and the
  deadline the next loop head sets is \<open>ticks_add\<close> of the clock value it reads and 1000.
  It is the previous deadline plus 1000 exactly when that clock value is the previous
  deadline (modulo the clock's period).
\<close>

theorem deadline_from_clock:
  assumes "pc s = Polling" "0 < seconds s"
  shows "(pc (countdown_step c inp s) = AtTick) = (ticks_diff (end_time s) (now inp) \<le> 0) \<and>
     (ticks_diff (end_time s) (now inp) \<le> 0 \<longrightarrow>
        seconds (countdown_step c inp s) = seconds s - 1 \<and>
        pc (countdown_step c inp' (countdown_step c inp s)) = Polling \<and>
        end_time (countdown_step c inp' (countdown_step c inp s)) = ticks_add (now inp') 1000 \<and>
        (end_time (countdown_step c inp' (countdown_step c inp s)) = ticks_add (end_time s) 1000)
          = (now inp' mod TICKS_PERIOD = end_time s mod TICKS_PERIOD))"
proof -
  have a: "(pc (countdown_step c inp s) = AtTick) = (ticks_diff (end_time s) (now inp) \<le> 0)"
    using assms(1) by (auto simp: countdown_step_def poll_body_def Let_def)
  have b: "ticks_diff (end_time s) (now inp) \<le> 0 \<longrightarrow>
        seconds (countdown_step c inp s) = seconds s - 1 \<and>
        pc (countdown_step c inp' (countdown_step c inp s)) = Polling \<and>
        end_time (countdown_step c inp' (countdown_step c inp s)) = ticks_add (now inp') 1000 \<and>
        (end_time (countdown_step c inp' (countdown_step c inp s)) = ticks_add (end_time s) 1000)
          = (now inp' mod TICKS_PERIOD = end_time s mod TICKS_PERIOD)"
  proof
    assume due: "ticks_diff (end_time s) (now inp) \<le> 0"
    let ?s1 = "countdown_step c inp s"
    have s1: "?s1 = s\<lparr> seconds := seconds s - 1, pc := AtTick \<rparr>"
      by (rule step_polling_due[OF assms(1) due])
    have p1: "pc ?s1 = AtTick" "0 \<le> seconds ?s1" "seconds ?s1 = seconds s - 1"
      using assms(2) unfolding s1 by simp_all
    have s2: "countdown_step c inp' ?s1 = tick_body c inp' ?s1"
      by (rule step_at_tick[OF p1(1,2)])
    show "seconds ?s1 = seconds s - 1 \<and>
        pc (countdown_step c inp' ?s1) = Polling \<and>
        end_time (countdown_step c inp' ?s1) = ticks_add (now inp') 1000 \<and>
        (end_time (countdown_step c inp' ?s1) = ticks_add (end_time s) 1000)
          = (now inp' mod TICKS_PERIOD = end_time s mod TICKS_PERIOD)"
      unfolding s2 tick_body_frame ticks_add_same_iff using p1(3) by simp
  qed
  show ?thesis using a b by (intro conjI)
qed

theorem deadline_from_clock_witness:
  "pc (countdown_run None [idle 0, idle 400] (countdown_init 125 False boot_world)) = Polling \<and>
   end_time (countdown_run None [idle 0, idle 400] (countdown_init 125 False boot_world)) = 1000 \<and>
   end_time (countdown_step None (idle 1005) (countdown_step None (idle 1003)
     (countdown_run None [idle 0, idle 400] (countdown_init 125 False boot_world)))) = 2005 \<and>
   end_time (countdown_step None (idle 1000) (countdown_step None (idle 1000)
     (countdown_run None [idle 0, idle 400] (countdown_init 125 False boot_world)))) = 2000"
proof -
  let ?s = "countdown_run None [idle 0, idle 400] (countdown_init 125 False boot_world)"
  have a: "pc ?s = Polling" by code_simp
  have b: "0 < seconds ?s" by code_simp
  have e: "end_time ?s = 1000" by code_simp
  have due: "ticks_diff (end_time ?s) (now (idle 1003)) \<le> 0" by code_simp
  have t5: "ticks_add (now (idle 1005)) 1000 = 2005" "ticks_add (now (idle 1000)) 1000 = 2000"
    by code_simp+
  have due0: "ticks_diff (end_time ?s) (now (idle 1000)) \<le> 0" by code_simp
  note t = deadline_from_clock[OF a b, of None "idle 1003", THEN conjunct2, rule_format, OF due]
  note t0 = deadline_from_clock[OF a b, of None "idle 1000", THEN conjunct2, rule_format, OF due0]
  have x: "end_time (countdown_step None (idle 1005) (countdown_step None (idle 1003) ?s)) = 2005"
    using t[of "idle 1005"] unfolding t5 by blast
  have y: "end_time (countdown_step None (idle 1000) (countdown_step None (idle 1000) ?s)) = 2000"
    using t0[of "idle 1000"] unfolding t5 by blast
  show ?thesis using a e x y by (intro conjI)
qed


section \<open>Debouncing in set\_times\<close>

text \<open>
  Up is accepted at 600, down at 1150, and up is pressed again at 1200, 600 ms after the
  up before it: the code does not accept it, because the time stamp it compares with is
  the one the down press left at 1150. A debouncer with one time stamp per button
  accepts it.
\<close>

theorem shared_debounce_counterexample:
  "study (set_times_run [press_up 600] (set_times_init 0 boot_world)) = 30 \<and>
   study (set_times_run [press_up 600, press_down 1150] (set_times_init 0 boot_world)) = 25 \<and>
   study (set_times_run [press_up 600, press_down 1150, press_up 1200]
            (set_times_init 0 boot_world)) = 25 \<and>
   set_times_state.last (set_times_run [press_up 600, press_down 1150, press_up 1200]
            (set_times_init 0 boot_world)) = 1150 \<and>
   debounce < ticks_diff 1200 600 \<and>
   pb_study (per_button_run [press_up 600, press_down 1150, press_up 1200]
            (per_button_init 0)) = 30"
  by code_simp

lemma set_times_pass:
  assumes "idx s < 2"
  shows
   "(\<not> debounce < ticks_diff (now inp) (set_times_state.last s) \<or>
     (\<not> py_not (up inp) \<and> \<not> py_not (down inp) \<and> \<not> py_not (confirm inp)) \<longrightarrow>
       study (set_times_step inp s) = study s \<and> rest (set_times_step inp s) = rest s \<and>
       idx (set_times_step inp s) = idx s \<and>
       set_times_state.last (set_times_step inp s) = set_times_state.last s) \<and>
    (debounce < ticks_diff (now inp) (set_times_state.last s) \<and> py_not (up inp) \<longrightarrow>
       set_times_state.last (set_times_step inp s) = now inp \<and>
       idx (set_times_step inp s) = idx s \<and>
       study (set_times_step inp s) = (if idx s = 0 then min (study s + 5) 95 else study s) \<and>
       rest (set_times_step inp s) = (if idx s = 0 then rest s else min (rest s + 5) 95)) \<and>
    (debounce < ticks_diff (now inp) (set_times_state.last s) \<and> \<not> py_not (up inp) \<and>
     py_not (down inp) \<longrightarrow>
       set_times_state.last (set_times_step inp s) = now inp \<and>
       idx (set_times_step inp s) = idx s \<and>
       study (set_times_step inp s) = (if idx s = 0 then max (study s - 5) 0 else study s) \<and>
       rest (set_times_step inp s) = (if idx s = 0 then rest s else max (rest s - 5) 0)) \<and>
    (debounce < ticks_diff (now inp) (set_times_state.last s) \<and> \<not> py_not (up inp) \<and>
     \<not> py_not (down inp) \<and> py_not (confirm inp) \<longrightarrow>
       set_times_state.last (set_times_step inp s) = now inp \<and>
       idx (set_times_step inp s) = idx s + 1 \<and>
       study (set_times_step inp s) = study s \<and> rest (set_times_step inp s) = rest s)"
proof -
  have z: "\<not> debounce < ticks_diff (now inp) (now inp)"
    by (simp add: ticks_diff_same debounce_def)
  show ?thesis using assms z
    by (simp add: set_times_step_def up_pressed_def down_pressed_def confirm_pressed_def Let_def)
qed

lemma set_times_step_ignored:
  assumes "\<not> debounce < ticks_diff (now i) (set_times_state.last s) \<or>
     (\<not> py_not (up i) \<and> \<not> py_not (down i) \<and> \<not> py_not (confirm i))"
  shows "study (set_times_step i s) = study s \<and> rest (set_times_step i s) = rest s \<and>
       idx (set_times_step i s) = idx s \<and>
       set_times_state.last (set_times_step i s) = set_times_state.last s"
proof (cases "idx s < 2")
  case True
  from set_times_pass[OF True, of i, THEN conjunct1] assms show ?thesis by blast
next
  case False
  then show ?thesis by (simp add: set_times_step_def)
qed

lemma set_times_run_ignored:
  assumes "\<forall>i\<in>set mid. \<not> debounce < ticks_diff (now i) (set_times_state.last s) \<or>
     (\<not> py_not (up i) \<and> \<not> py_not (down i) \<and> \<not> py_not (confirm i))"
  shows "study (set_times_run mid s) = study s \<and> rest (set_times_run mid s) = rest s \<and>
       idx (set_times_run mid s) = idx s \<and>
       set_times_state.last (set_times_run mid s) = set_times_state.last s"
  using assms
proof (induction mid arbitrary: s)
  case Nil
  then show ?case by simp
next
  case (Cons i mid)
  have hi: "\<not> debounce < ticks_diff (now i) (set_times_state.last s) \<or>
     (\<not> py_not (up i) \<and> \<not> py_not (down i) \<and> \<not> py_not (confirm i))"
    using Cons.prems by simp
  note st = set_times_step_ignored[OF hi]
  have l: "set_times_state.last (set_times_step i s) = set_times_state.last s" using st by simp
  have "\<forall>j\<in>set mid. \<not> debounce < ticks_diff (now j) (set_times_state.last (set_times_step i s)) \<or>
     (\<not> py_not (up j) \<and> \<not> py_not (down j) \<and> \<not> py_not (confirm j))"
    unfolding l using Cons.prems by simp
  from Cons.IH[OF this] st show ?case by simp
qed

lemma set_times_accept_stamp:
  assumes "idx s < 2" "debounce < ticks_diff (now p) (set_times_state.last s)"
    "py_not (up p) \<or> py_not (down p) \<or> py_not (confirm p)"
  shows "set_times_state.last (set_times_step p s) = now p"
  using set_times_pass[OF assms(1), of p] assms(2,3) by blast

text \<open>
  C7, as the code has it. \<open>set_times\<close> keeps one time stamp \<open>last\<close> for the three buttons.
  A pass accepts a button only when \<open>ticks_diff(now, last) > debounce\<close> for that shared
  time stamp, and accepting sets \<open>last = now\<close>, so a pass accepts at most one button: up
  if it is pressed, else down, else confirm. When the window has not passed, or no button
  is pressed, the pass changes none of \<open>study\<close>, \<open>rest\<close>, \<open>idx\<close>, \<open>last\<close>, and so does any
  run of such passes. Hence, after a pass \<open>pa\<close> that accepted a button, followed by passes
  that are inside the window of \<open>pa\<close> or read no button: a pass \<open>pb\<close> inside the window of
  \<open>pa\<close> is ignored whatever it presses, and a pass \<open>pb\<close> more than the window after \<open>pa\<close>
  accepts the button it presses.
\<close>

theorem set_times_shared_debounce:
  assumes "idx s < 2"
  shows
   "(\<not> debounce < ticks_diff (now inp) (set_times_state.last s) \<or>
     (\<not> py_not (up inp) \<and> \<not> py_not (down inp) \<and> \<not> py_not (confirm inp)) \<longrightarrow>
       study (set_times_step inp s) = study s \<and> rest (set_times_step inp s) = rest s \<and>
       idx (set_times_step inp s) = idx s \<and>
       set_times_state.last (set_times_step inp s) = set_times_state.last s) \<and>
    (debounce < ticks_diff (now inp) (set_times_state.last s) \<and> py_not (up inp) \<longrightarrow>
       set_times_state.last (set_times_step inp s) = now inp \<and>
       idx (set_times_step inp s) = idx s \<and>
       study (set_times_step inp s) = (if idx s = 0 then min (study s + 5) 95 else study s) \<and>
       rest (set_times_step inp s) = (if idx s = 0 then rest s else min (rest s + 5) 95)) \<and>
    (debounce < ticks_diff (now inp) (set_times_state.last s) \<and> \<not> py_not (up inp) \<and>
     py_not (down inp) \<longrightarrow>
       set_times_state.last (set_times_step inp s) = now inp \<and>
       idx (set_times_step inp s) = idx s \<and>
       study (set_times_step inp s) = (if idx s = 0 then max (study s - 5) 0 else study s) \<and>
       rest (set_times_step inp s) = (if idx s = 0 then rest s else max (rest s - 5) 0)) \<and>
    (debounce < ticks_diff (now inp) (set_times_state.last s) \<and> \<not> py_not (up inp) \<and>
     \<not> py_not (down inp) \<and> py_not (confirm inp) \<longrightarrow>
       set_times_state.last (set_times_step inp s) = now inp \<and>
       idx (set_times_step inp s) = idx s + 1 \<and>
       study (set_times_step inp s) = study s \<and> rest (set_times_step inp s) = rest s) \<and>
    ((\<forall>i\<in>set mid. \<not> debounce < ticks_diff (now i) (set_times_state.last s) \<or>
         (\<not> py_not (up i) \<and> \<not> py_not (down i) \<and> \<not> py_not (confirm i))) \<longrightarrow>
       study (set_times_run mid s) = study s \<and> rest (set_times_run mid s) = rest s \<and>
       idx (set_times_run mid s) = idx s \<and>
       set_times_state.last (set_times_run mid s) = set_times_state.last s) \<and>
    (debounce < ticks_diff (now pa) (set_times_state.last s) \<and>
     (py_not (up pa) \<or> py_not (down pa) \<or> py_not (confirm pa)) \<and>
     (\<forall>i\<in>set mid. \<not> debounce < ticks_diff (now i) (now pa) \<or>
         (\<not> py_not (up i) \<and> \<not> py_not (down i) \<and> \<not> py_not (confirm i))) \<and>
     idx (set_times_step pa s) < 2 \<longrightarrow>
       set_times_state.last (set_times_step pa s) = now pa \<and>
       (\<not> debounce < ticks_diff (now pb) (now pa) \<longrightarrow>
          study (set_times_step pb (set_times_run mid (set_times_step pa s)))
            = study (set_times_step pa s) \<and>
          rest (set_times_step pb (set_times_run mid (set_times_step pa s)))
            = rest (set_times_step pa s) \<and>
          idx (set_times_step pb (set_times_run mid (set_times_step pa s)))
            = idx (set_times_step pa s) \<and>
          set_times_state.last (set_times_step pb (set_times_run mid (set_times_step pa s)))
            = now pa) \<and>
       (debounce < ticks_diff (now pb) (now pa) \<and> py_not (up pb) \<longrightarrow>
          set_times_state.last (set_times_step pb (set_times_run mid (set_times_step pa s)))
            = now pb \<and>
          idx (set_times_step pb (set_times_run mid (set_times_step pa s)))
            = idx (set_times_step pa s) \<and>
          study (set_times_step pb (set_times_run mid (set_times_step pa s)))
            = (if idx (set_times_step pa s) = 0 then min (study (set_times_step pa s) + 5) 95
               else study (set_times_step pa s)) \<and>
          rest (set_times_step pb (set_times_run mid (set_times_step pa s)))
            = (if idx (set_times_step pa s) = 0 then rest (set_times_step pa s)
               else min (rest (set_times_step pa s) + 5) 95)) \<and>
       (debounce < ticks_diff (now pb) (now pa) \<and> \<not> py_not (up pb) \<and> py_not (down pb) \<longrightarrow>
          set_times_state.last (set_times_step pb (set_times_run mid (set_times_step pa s)))
            = now pb \<and>
          idx (set_times_step pb (set_times_run mid (set_times_step pa s)))
            = idx (set_times_step pa s) \<and>
          study (set_times_step pb (set_times_run mid (set_times_step pa s)))
            = (if idx (set_times_step pa s) = 0 then max (study (set_times_step pa s) - 5) 0
               else study (set_times_step pa s)) \<and>
          rest (set_times_step pb (set_times_run mid (set_times_step pa s)))
            = (if idx (set_times_step pa s) = 0 then rest (set_times_step pa s)
               else max (rest (set_times_step pa s) - 5) 0)) \<and>
       (debounce < ticks_diff (now pb) (now pa) \<and> \<not> py_not (up pb) \<and> \<not> py_not (down pb) \<and>
        py_not (confirm pb) \<longrightarrow>
          set_times_state.last (set_times_step pb (set_times_run mid (set_times_step pa s)))
            = now pb \<and>
          idx (set_times_step pb (set_times_run mid (set_times_step pa s)))
            = idx (set_times_step pa s) + 1 \<and>
          study (set_times_step pb (set_times_run mid (set_times_step pa s)))
            = study (set_times_step pa s) \<and>
          rest (set_times_step pb (set_times_run mid (set_times_step pa s)))
            = rest (set_times_step pa s)))"
proof -
  note one = set_times_pass[OF assms, of inp]
  have five: "(\<forall>i\<in>set mid. \<not> debounce < ticks_diff (now i) (set_times_state.last s) \<or>
         (\<not> py_not (up i) \<and> \<not> py_not (down i) \<and> \<not> py_not (confirm i))) \<longrightarrow>
       study (set_times_run mid s) = study s \<and> rest (set_times_run mid s) = rest s \<and>
       idx (set_times_run mid s) = idx s \<and>
       set_times_state.last (set_times_run mid s) = set_times_state.last s"
    using set_times_run_ignored[of mid s] by blast
  define s1 where "s1 = set_times_step pa s"
  define s2 where "s2 = set_times_run mid s1"
  have six: "debounce < ticks_diff (now pa) (set_times_state.last s) \<and>
     (py_not (up pa) \<or> py_not (down pa) \<or> py_not (confirm pa)) \<and>
     (\<forall>i\<in>set mid. \<not> debounce < ticks_diff (now i) (now pa) \<or>
         (\<not> py_not (up i) \<and> \<not> py_not (down i) \<and> \<not> py_not (confirm i))) \<and>
     idx s1 < 2 \<longrightarrow>
       set_times_state.last s1 = now pa \<and>
       (\<not> debounce < ticks_diff (now pb) (now pa) \<longrightarrow>
          study (set_times_step pb s2) = study s1 \<and> rest (set_times_step pb s2) = rest s1 \<and>
          idx (set_times_step pb s2) = idx s1 \<and>
          set_times_state.last (set_times_step pb s2) = now pa) \<and>
       (debounce < ticks_diff (now pb) (now pa) \<and> py_not (up pb) \<longrightarrow>
          set_times_state.last (set_times_step pb s2) = now pb \<and>
          idx (set_times_step pb s2) = idx s1 \<and>
          study (set_times_step pb s2) = (if idx s1 = 0 then min (study s1 + 5) 95 else study s1) \<and>
          rest (set_times_step pb s2) = (if idx s1 = 0 then rest s1 else min (rest s1 + 5) 95)) \<and>
       (debounce < ticks_diff (now pb) (now pa) \<and> \<not> py_not (up pb) \<and> py_not (down pb) \<longrightarrow>
          set_times_state.last (set_times_step pb s2) = now pb \<and>
          idx (set_times_step pb s2) = idx s1 \<and>
          study (set_times_step pb s2) = (if idx s1 = 0 then max (study s1 - 5) 0 else study s1) \<and>
          rest (set_times_step pb s2) = (if idx s1 = 0 then rest s1 else max (rest s1 - 5) 0)) \<and>
       (debounce < ticks_diff (now pb) (now pa) \<and> \<not> py_not (up pb) \<and> \<not> py_not (down pb) \<and>
        py_not (confirm pb) \<longrightarrow>
          set_times_state.last (set_times_step pb s2) = now pb \<and>
          idx (set_times_step pb s2) = idx s1 + 1 \<and>
          study (set_times_step pb s2) = study s1 \<and> rest (set_times_step pb s2) = rest s1)"
  proof
    assume H: "debounce < ticks_diff (now pa) (set_times_state.last s) \<and>
     (py_not (up pa) \<or> py_not (down pa) \<or> py_not (confirm pa)) \<and>
     (\<forall>i\<in>set mid. \<not> debounce < ticks_diff (now i) (now pa) \<or>
         (\<not> py_not (up i) \<and> \<not> py_not (down i) \<and> \<not> py_not (confirm i))) \<and>
     idx s1 < 2"
    have l1: "set_times_state.last s1 = now pa"
      unfolding s1_def using set_times_accept_stamp[OF assms, of pa] H by blast
    have m: "\<forall>i\<in>set mid. \<not> debounce < ticks_diff (now i) (set_times_state.last s1) \<or>
         (\<not> py_not (up i) \<and> \<not> py_not (down i) \<and> \<not> py_not (confirm i))"
      unfolding l1 using H by blast
    note r = set_times_run_ignored[OF m, folded s2_def]
    have f2: "study s2 = study s1" "rest s2 = rest s1" "idx s2 = idx s1"
      "set_times_state.last s2 = now pa"
      using r l1 by simp_all
    have i2: "idx s2 < 2" using H f2 by simp
    note two = set_times_pass[OF i2, of pb, unfolded f2]
    show "set_times_state.last s1 = now pa \<and>
       (\<not> debounce < ticks_diff (now pb) (now pa) \<longrightarrow>
          study (set_times_step pb s2) = study s1 \<and> rest (set_times_step pb s2) = rest s1 \<and>
          idx (set_times_step pb s2) = idx s1 \<and>
          set_times_state.last (set_times_step pb s2) = now pa) \<and>
       (debounce < ticks_diff (now pb) (now pa) \<and> py_not (up pb) \<longrightarrow>
          set_times_state.last (set_times_step pb s2) = now pb \<and>
          idx (set_times_step pb s2) = idx s1 \<and>
          study (set_times_step pb s2) = (if idx s1 = 0 then min (study s1 + 5) 95 else study s1) \<and>
          rest (set_times_step pb s2) = (if idx s1 = 0 then rest s1 else min (rest s1 + 5) 95)) \<and>
       (debounce < ticks_diff (now pb) (now pa) \<and> \<not> py_not (up pb) \<and> py_not (down pb) \<longrightarrow>
          set_times_state.last (set_times_step pb s2) = now pb \<and>
          idx (set_times_step pb s2) = idx s1 \<and>
          study (set_times_step pb s2) = (if idx s1 = 0 then max (study s1 - 5) 0 else study s1) \<and>
          rest (set_times_step pb s2) = (if idx s1 = 0 then rest s1 else max (rest s1 - 5) 0)) \<and>
       (debounce < ticks_diff (now pb) (now pa) \<and> \<not> py_not (up pb) \<and> \<not> py_not (down pb) \<and>
        py_not (confirm pb) \<longrightarrow>
          set_times_state.last (set_times_step pb s2) = now pb \<and>
          idx (set_times_step pb s2) = idx s1 + 1 \<and>
          study (set_times_step pb s2) = study s1 \<and> rest (set_times_step pb s2) = rest s1)"
      using l1 two by blast
  qed
  show ?thesis
    using one five six[unfolded s2_def s1_def] by (intro conjI) blast+
qed

theorem set_times_shared_debounce_witness:
  "study (set_times_step (press_up 600) (set_times_init 0 boot_world)) = 30 \<and>
   set_times_state.last (set_times_step (press_up 600) (set_times_init 0 boot_world)) = 600 \<and>
   study (set_times_step (press_up 1200)
      (set_times_run [press_up 600, press_down 1150] (set_times_init 0 boot_world))) = 25 \<and>
   set_times_state.last (set_times_step (press_up 1200)
      (set_times_run [press_up 600, press_down 1150] (set_times_init 0 boot_world))) = 1150 \<and>
   study (set_times_step (press_up 1050)
      (set_times_run [press_up 640, idle 900, press_down 1000]
         (set_times_step (press_up 600) (set_times_init 0 boot_world)))) = 30 \<and>
   study (set_times_step (press_up 1200)
      (set_times_run [press_up 640, idle 900, press_down 1000]
         (set_times_step (press_up 600) (set_times_init 0 boot_world)))) = 35 \<and>
   set_times_state.last (set_times_step (press_up 1200)
      (set_times_run [press_up 640, idle 900, press_down 1000]
         (set_times_step (press_up 600) (set_times_init 0 boot_world)))) = 1200"
proof -
  let ?s0 = "set_times_init 0 boot_world"
  let ?s2 = "set_times_run [press_up 600, press_down 1150] ?s0"
  let ?mid = "[press_up 640, idle 900, press_down 1000]"
  have i0: "idx ?s0 < 2" "idx ?s0 = 0" "study ?s0 = 25" by code_simp+
  have ok0: "debounce < ticks_diff (now (press_up 600)) (set_times_state.last ?s0) \<and>
             py_not (up (press_up 600))" by code_simp
  have i2: "idx ?s2 < 2" "study ?s2 = 25" "set_times_state.last ?s2 = 1150" by code_simp+
  have no2: "\<not> debounce < ticks_diff (now (press_up 1200)) (set_times_state.last ?s2)"
    by code_simp
  note a = set_times_shared_debounce[OF i0(1), of "press_up 600", THEN conjunct2,
      THEN conjunct1, rule_format, OF ok0]
  note b = set_times_shared_debounce[OF i2(1), of "press_up 1200", THEN conjunct1,
      rule_format, OF disjI1[OF no2]]
  have a1: "study (set_times_step (press_up 600) ?s0) = 30"
    "set_times_state.last (set_times_step (press_up 600) ?s0) = 600"
    using a i0(2,3) by (simp_all add: press_up_def idle_def)
  have b1: "study (set_times_step (press_up 1200) ?s2) = 25"
    "set_times_state.last (set_times_step (press_up 1200) ?s2) = 1150"
    using b i2(2,3) by simp_all
  have h: "debounce < ticks_diff (now (press_up 600)) (set_times_state.last ?s0) \<and>
     (py_not (up (press_up 600)) \<or> py_not (down (press_up 600)) \<or>
      py_not (confirm (press_up 600))) \<and>
     (\<forall>i\<in>set ?mid. \<not> debounce < ticks_diff (now i) (now (press_up 600)) \<or>
         (\<not> py_not (up i) \<and> \<not> py_not (down i) \<and> \<not> py_not (confirm i))) \<and>
     idx (set_times_step (press_up 600) ?s0) < 2" by code_simp
  have s1: "idx (set_times_step (press_up 600) ?s0) = 0" by code_simp
  have near: "\<not> debounce < ticks_diff (now (press_up 1050)) (now (press_up 600))" by code_simp
  have far: "debounce < ticks_diff (now (press_up 1200)) (now (press_up 600)) \<and>
     py_not (up (press_up 1200))" by code_simp
  note six = set_times_shared_debounce[OF i0(1), where pa = "press_up 600" and mid = ?mid,
      THEN conjunct2, THEN conjunct2, THEN conjunct2, THEN conjunct2, THEN conjunct2,
      rule_format, OF h]
  note c = six[where pb = "press_up 1050", THEN conjunct2, THEN conjunct1, rule_format, OF near]
  note d = six[where pb = "press_up 1200", THEN conjunct2, THEN conjunct2, THEN conjunct1,
      rule_format, OF far]
  have c1: "study (set_times_step (press_up 1050)
      (set_times_run ?mid (set_times_step (press_up 600) ?s0))) = 30"
    using c a1(1) by simp
  have n12: "now (press_up 1200) = 1200" by code_simp
  have d1: "study (set_times_step (press_up 1200)
      (set_times_run ?mid (set_times_step (press_up 600) ?s0))) = 35"
    "set_times_state.last (set_times_step (press_up 1200)
      (set_times_run ?mid (set_times_step (press_up 600) ?s0))) = 1200"
    using d unfolding s1 a1(1) n12 by simp_all
  show ?thesis using a1 b1 c1 d1 by (intro conjI)
qed


section \<open>The reset button\<close>

text \<open>
  A countdown paused by the confirm button and then shown the reset button pressed on
  three passes in a row stays in its pause loop: \<open>main\<close> is still inside the same work
  countdown. And a work countdown whose jingle is playing when reset is pressed in the
  polling loop: \<open>main\<close> is called again and is in \<open>set_times\<close>, while the thread of the
  work jingle is still in its loop and its next pass calls \<open>tick()\<close> once more, beside the
  thread of the intro jingle.
\<close>

theorem reset_pause_and_melody_counterexample:
  "pc (countdown_run (Some (255, 255, 0)) [idle 0, press_confirm 100]
         (countdown_init 1500 False boot_world)) = PausedLoop \<and>
   pc (countdown_run (Some (255, 255, 0))
         [idle 0, press_confirm 100, press_reset 500, press_reset 560, press_reset 620]
         (countdown_init 1500 False boot_world)) = PausedLoop \<and>
   main_run [idle 0, press_confirm 100, press_reset 500, press_reset 560, press_reset 620]
      (start_work 0 1500 300 False boot_world)
     = InWork 0 1500 300 (countdown_run (Some (255, 255, 0))
         [idle 0, press_confirm 100, press_reset 500, press_reset 560, press_reset 620]
         (countdown_init 1500 False
            (sleep_ms 300 (play_jingle WorkJingle (update_led (0, 255, 0) boot_world))))) \<and>
   in_set_times (system_run
      [ThreadPass 0 True, MainPass (idle 0), MainPass (press_reset 100), MainPass (idle 150),
       ThreadPass 0 True] (start_work 0 1500 300 False boot_world)) \<and>
   main_depth (system_run
      [ThreadPass 0 True, MainPass (idle 0), MainPass (press_reset 100), MainPass (idle 150),
       ThreadPass 0 True] (start_work 0 1500 300 False boot_world)) = 1 \<and>
   threads (main_world (system_run
      [ThreadPass 0 True, MainPass (idle 0), MainPass (press_reset 100), MainPass (idle 150),
       ThreadPass 0 True] (start_work 0 1500 300 False boot_world)))
     = [\<lparr> melody = WorkJingle, th_pc = InTickLoop, tick_calls = 2, restart_calls = 0 \<rparr>,
        \<lparr> melody = IntroJingle, th_pc = InTickLoop, tick_calls = 0, restart_calls = 0 \<rparr>]"
  by code_simp

lemma world_threads [simp]:
  "threads (sleep_ms k w) = threads w"
  "threads (update_led col w) = threads w"
  "threads (display_write fr w) = threads w"
  "threads (display_clear w) = threads w"
  "threads (play_jingle j w) = threads w @ [thread_start j]"
  by (simp_all add: sleep_ms_def update_led_def play_jingle_def display_write_def
      display_clear_def emit_def)

lemma countdown_step_threads:
  "threads (cd_world (countdown_step c inp s)) = threads (cd_world s)"
  by (cases "pc s")
    (simp_all add: countdown_step_def tick_body_def poll_body_def paused_body_def Let_def
      split: option.splits)

lemma set_times_step_threads:
  "threads (st_world (set_times_step inp s)) = threads (st_world s)"
  by (simp add: set_times_step_def up_pressed_def down_pressed_def confirm_pressed_def Let_def)

lemma main_step_threads:
  "take (length (threads (main_world m))) (threads (main_world (main_step inp m)))
     = threads (main_world m)"
proof (cases m)
  case (Entering depth w)
  then show ?thesis by (simp add: main_step_def main_enter_def set_times_init_def)
next
  case (InSetTimes depth st)
  then show ?thesis
    using set_times_step_threads[of inp st]
    by (simp add: main_step_def Let_def start_work_def countdown_init_def
        split: option.splits prod.splits)
next
  case (InWork depth a b cd)
  then show ?thesis
    using countdown_step_threads[of "Some (255, 255, 0)" inp cd]
    by (simp add: main_step_def Let_def start_rest_def countdown_init_def split: cd_pc.splits)
next
  case (InRest depth a b cd)
  then show ?thesis
    using countdown_step_threads[of "Some (255, 255, 0)" inp cd]
    by (simp add: main_step_def Let_def start_work_def countdown_init_def split: cd_pc.splits)
qed

lemma thread_step_ends:
  "(th_pc (thread_step result th) = ThreadEnded) = (th_pc th = ThreadEnded \<or> \<not> result)"
  by (cases "th_pc th") (simp_all add: thread_step_def Let_def)

lemma step_polling_reset:
  assumes "pc cd = Polling" "0 < ticks_diff (end_time cd) (now inp)" "py_not (reset inp)"
  shows "pc (countdown_step c inp cd) = CalledMain"
    "cd_world (countdown_step c inp cd) =
       (if py_not (confirm inp) then sleep_ms 300 (cd_world cd) else cd_world cd)"
    "seconds (countdown_step c inp cd) = seconds cd"
  using assms by (simp_all add: countdown_step_def poll_body_def Let_def)

text \<open>
  C2, as the code has it. A pass of the polling loop that has not reached the deadline
  and reads the reset button pressed calls \<open>main()\<close>: the countdown is abandoned, whether
  it is the work or the rest countdown, and the new call of \<open>main\<close> sets the LED to the
  start colour, starts the intro jingle and enters \<open>set_times\<close> with its defaults 25 and
  5 and the study field selected. The jingle threads are left as they are, with the
  thread of the intro jingle added: no pass of the control loop changes or removes a
  thread that exists, and a thread ends only by a pass in which \<open>tick()\<close> returns false.
\<close>

theorem reset_restarts_main:
  assumes "pc cd = Polling" "0 < ticks_diff (end_time cd) (now inp)" "py_not (reset inp)"
  shows "pc (countdown_step c inp cd) = CalledMain \<and>
     main_run [inp, inp'] (InWork depth study_secs rest_secs cd) =
       InSetTimes (Suc depth) (set_times_init (now inp')
         (play_jingle IntroJingle (update_led (35, 91, 121)
            (if py_not (confirm inp) then sleep_ms 300 (cd_world cd) else cd_world cd)))) \<and>
     main_run [inp, inp'] (InRest depth study_secs rest_secs cd) =
       InSetTimes (Suc depth) (set_times_init (now inp')
         (play_jingle IntroJingle (update_led (35, 91, 121)
            (if py_not (confirm inp) then sleep_ms 300 (cd_world cd) else cd_world cd)))) \<and>
     study (set_times_init (now inp') w) = 25 \<and> rest (set_times_init (now inp') w) = 5 \<and>
     idx (set_times_init (now inp') w) = 0 \<and>
     threads (main_world (main_run [inp, inp'] (InWork depth study_secs rest_secs cd)))
       = threads (cd_world cd) @ [thread_start IntroJingle] \<and>
     threads (main_world (main_run [inp, inp'] (InRest depth study_secs rest_secs cd)))
       = threads (cd_world cd) @ [thread_start IntroJingle] \<and>
     take (length (threads (main_world m))) (threads (main_world (main_step inp2 m)))
       = threads (main_world m) \<and>
     (th_pc (thread_step result th) = ThreadEnded) = (th_pc th = ThreadEnded \<or> \<not> result)"
proof -
  note r = step_polling_reset[OF assms]
  let ?w = "if py_not (confirm inp) then sleep_ms 300 (cd_world cd) else cd_world cd"
  have w: "main_step inp (InWork depth study_secs rest_secs cd) = Entering (Suc depth) ?w"
    using r(1,2)[of "Some (255, 255, 0)"] by (simp add: main_step_def Let_def)
  have rs: "main_step inp (InRest depth study_secs rest_secs cd) = Entering (Suc depth) ?w"
    using r(1,2)[of "Some (255, 255, 0)"] by (simp add: main_step_def Let_def)
  have e: "\<And>w'. main_step inp' (Entering (Suc depth) w') = main_enter (Suc depth) inp' w'"
    by (simp add: main_step_def)
  have a: "pc (countdown_step c inp cd) = CalledMain" by (rule r(1))
  have b: "main_run [inp, inp'] (InWork depth study_secs rest_secs cd) =
       InSetTimes (Suc depth) (set_times_init (now inp')
         (play_jingle IntroJingle (update_led (35, 91, 121) ?w)))"
    by (simp add: w e main_enter_def)
  have c: "main_run [inp, inp'] (InRest depth study_secs rest_secs cd) =
       InSetTimes (Suc depth) (set_times_init (now inp')
         (play_jingle IntroJingle (update_led (35, 91, 121) ?w)))"
    by (simp add: rs e main_enter_def)
  have d: "study (set_times_init (now inp') w) = 25" "rest (set_times_init (now inp') w) = 5"
    "idx (set_times_init (now inp') w) = 0"
    by (simp_all add: set_times_init_def)
  have tw: "threads ?w = threads (cd_world cd)" by simp
  have f: "threads (main_world (main_run [inp, inp'] (InWork depth study_secs rest_secs cd)))
       = threads (cd_world cd) @ [thread_start IntroJingle]"
    unfolding b by (simp add: set_times_init_def tw del: if_cancel)
  have g: "threads (main_world (main_run [inp, inp'] (InRest depth study_secs rest_secs cd)))
       = threads (cd_world cd) @ [thread_start IntroJingle]"
    unfolding c by (simp add: set_times_init_def tw)
  show ?thesis
    using a b c d f g main_step_threads[of m inp2] thread_step_ends[of result th]
    by (intro conjI)
qed

theorem reset_restarts_main_witness:
  "pc (countdown_run (Some (255, 255, 0)) [idle 0, idle 200]
         (countdown_init 1500 False (thread_pass 0 True (play_jingle WorkJingle boot_world))))
     = Polling \<and>
   main_run [press_reset 300, idle 350] (InWork 0 1500 300
      (countdown_run (Some (255, 255, 0)) [idle 0, idle 200]
         (countdown_init 1500 False (thread_pass 0 True (play_jingle WorkJingle boot_world)))))
    = InSetTimes (Suc 0) (set_times_init 350
         (play_jingle IntroJingle (update_led (35, 91, 121)
            (cd_world (countdown_run (Some (255, 255, 0)) [idle 0, idle 200]
               (countdown_init 1500 False
                  (thread_pass 0 True (play_jingle WorkJingle boot_world)))))))) \<and>
   threads (main_world (main_run [press_reset 300, idle 350] (InWork 0 1500 300
      (countdown_run (Some (255, 255, 0)) [idle 0, idle 200]
         (countdown_init 1500 False (thread_pass 0 True (play_jingle WorkJingle boot_world)))))))
    = [\<lparr> melody = WorkJingle, th_pc = InTickLoop, tick_calls = 1, restart_calls = 0 \<rparr>,
       \<lparr> melody = IntroJingle, th_pc = InTickLoop, tick_calls = 0, restart_calls = 0 \<rparr>]"
proof -
  let ?cd = "countdown_run (Some (255, 255, 0)) [idle 0, idle 200]
         (countdown_init 1500 False (thread_pass 0 True (play_jingle WorkJingle boot_world)))"
  have a: "pc ?cd = Polling" by code_simp
  have b: "0 < ticks_diff (end_time ?cd) (now (press_reset 300))" by code_simp
  have c: "py_not (reset (press_reset 300))" by code_simp
  have d: "\<not> py_not (confirm (press_reset 300))" "now (idle 350) = 350" by code_simp+
  have th: "threads (cd_world ?cd)
     = [\<lparr> melody = WorkJingle, th_pc = InTickLoop, tick_calls = 1, restart_calls = 0 \<rparr>]"
    by code_simp
  have ts: "thread_start IntroJingle
     = \<lparr> melody = IntroJingle, th_pc = InTickLoop, tick_calls = 0, restart_calls = 0 \<rparr>"
    by (simp add: thread_start_def)
  note t = reset_restarts_main[OF a b c, of _ "idle 350" 0 1500 300]
  have m: "main_run [press_reset 300, idle 350] (InWork 0 1500 300 ?cd)
    = InSetTimes (Suc 0) (set_times_init 350
         (play_jingle IntroJingle (update_led (35, 91, 121) (cd_world ?cd))))"
    using t[THEN conjunct2, THEN conjunct1] by (simp only: d if_False)
  have n: "threads (main_world (main_run [press_reset 300, idle 350] (InWork 0 1500 300 ?cd)))
    = [\<lparr> melody = WorkJingle, th_pc = InTickLoop, tick_calls = 1, restart_calls = 0 \<rparr>,
       \<lparr> melody = IntroJingle, th_pc = InTickLoop, tick_calls = 0, restart_calls = 0 \<rparr>]"
    using t[THEN conjunct2, THEN conjunct2, THEN conjunct2, THEN conjunct2, THEN conjunct2,
        THEN conjunct2, THEN conjunct1]
    unfolding th ts by simp
  show ?thesis using a m n by (intro conjI)
qed

end
